theory Spec2Isabelle
  imports Main "HOL-Library.Sublist" "HOL-Library.Char_ord" "HOL-Library.List_Lexorder"
begin

section \<open>Documents\<close>

text \<open>
  A CloudFormation template is a JSON-compatible JavaScript value. Objects are kept as
  association lists in \<^verbatim>\<open>Object.keys\<close> order; \<open>JUndefined\<close> is what a property read of a
  missing key yields. Numbers are integers here: no operation of the engine computes
  with them.
\<close>

datatype json =
    JUndefined
  | JNull
  | JBool bool
  | JNum int
  | JStr string
  | JArr "json list"
  | JObj "(string \<times> json) list"

text \<open>\<^verbatim>\<open>obj[key]\<close>: the value stored under the key, \<^verbatim>\<open>undefined\<close> when there is none.\<close>

definition lookup :: "(string \<times> json) list \<Rightarrow> string \<Rightarrow> json" where
  "lookup obj key = (case map_of obj key of None \<Rightarrow> JUndefined | Some v \<Rightarrow> v)"

section \<open>Lists\<close>

text \<open>The last element of a list that satisfies a predicate: a later assignment overwrites.\<close>

definition lastWhere :: "('a \<Rightarrow> bool) \<Rightarrow> 'a list \<Rightarrow> 'a option" where
  "lastWhere P xs = find P (rev xs)"

lemma lastWhere_Nil: "lastWhere P [] = None"
  by (simp add: lastWhere_def)

lemma lastWhere_snoc: "lastWhere P (xs @ [x]) = (if P x then Some x else lastWhere P xs)"
  by (simp add: lastWhere_def)

section \<open>Rewriting references to a replaced resource\<close>

text \<open>
  \<^verbatim>\<open>replaceReference(obj)\<close> of \<^verbatim>\<open>propagateReplacedReferences\<close>. The JavaScript function
  returns a boolean and, on the way, mutates \<^verbatim>\<open>obj\<close> and sets the flag \<^verbatim>\<open>ret\<close> of the
  enclosing call. Here \<open>None\<close> stands for the result \<^verbatim>\<open>false\<close>, and \<open>Some (obj', r)\<close> for the
  result \<^verbatim>\<open>true\<close> with the object as it is afterwards and \<open>r\<close> telling whether \<^verbatim>\<open>ret\<close>
  was set.
\<close>

fun replaceReference :: "string \<Rightarrow> (string \<times> json) list \<Rightarrow> ((string \<times> json) list \<times> bool) option" where
  "replaceReference logicalId [(key, v)] =
     (if key = ''Ref'' then
        (if v = JStr logicalId
         then Some ([(key, JStr (logicalId @ '' (replaced)''))], True)
         else Some ([(key, v)], False))
      else if prefix ''Fn::'' key then
        (case v of
           JArr (x # rest) \<Rightarrow>
             (if x = JStr logicalId
              then Some ([(key, JArr (JStr (logicalId @ ''(replaced)'') # rest))], True)
              else Some ([(key, v)], False))
         | _ \<Rightarrow> Some ([(key, v)], False))
      else None)"
| "replaceReference logicalId obj = None"

text \<open>
  \<^verbatim>\<open>recurse(obj)\<close>. An array is visited by \<^verbatim>\<open>obj.forEach(recurse)\<close>; since an array is
  an object too, \<^verbatim>\<open>replaceReference\<close> is then asked about it, answers \<^verbatim>\<open>false\<close> (its keys
  are indices), and the elements are visited a second time through
  \<^verbatim>\<open>Object.values(obj).forEach(recurse)\<close>. The second component of the result tells
  whether \<^verbatim>\<open>ret\<close> was set during the visit.
\<close>

function (sequential) recurse :: "string \<Rightarrow> json \<Rightarrow> json \<times> bool"
  and forEach_recurse :: "string \<Rightarrow> json list \<Rightarrow> json list \<times> bool"
where
  "recurse logicalId (JArr xs) =
     (let (xs1, r1) = forEach_recurse logicalId xs;
          (xs2, r2) = forEach_recurse logicalId xs1
      in (JArr xs2, r1 \<or> r2))"
| "recurse logicalId (JObj kvs) =
     (case replaceReference logicalId kvs of
        Some (kvs', r) \<Rightarrow> (JObj kvs', r)
      | None \<Rightarrow>
          (let (vs, r) = forEach_recurse logicalId (map snd kvs)
           in (JObj (zip (map fst kvs) vs), r)))"
| "recurse logicalId v = (v, False)"
| "forEach_recurse logicalId [] = ([], False)"
| "forEach_recurse logicalId (x # xs) =
     (let (x', r1) = recurse logicalId x;
          (xs', r2) = forEach_recurse logicalId xs
      in (x' # xs', r1 \<or> r2))"
  by pat_completeness auto

lemma replaceReference_size:
  "replaceReference L kvs = Some (kvs', r) \<Longrightarrow> size (JObj kvs') = size (JObj kvs)"
  by (cases "(L, kvs)" rule: replaceReference.cases)
     (auto split: if_splits json.splits list.splits)

lemma size_values_le:
  "size_list size (map snd kvs) \<le> size_list (size_prod (\<lambda>_. 0) size) (kvs :: (string \<times> json) list)"
  by (induction kvs) auto

lemma size_zip_values:
  "length vs = length kvs \<Longrightarrow>
   size_list (size_prod (\<lambda>_. 0) size) (zip (map fst kvs) vs) + size_list size (map snd kvs) =
   size_list (size_prod (\<lambda>_. 0) size) (kvs :: (string \<times> json) list) + size_list size vs"
proof (induction kvs arbitrary: vs)
  case Nil
  then show ?case by simp
next
  case (Cons a kvs)
  then obtain w ws where vs: "vs = w # ws" by (cases vs) auto
  obtain k v where a: "a = (k, v)" by (cases a)
  from Cons.prems vs have "length ws = length kvs" by simp
  from Cons.IH[OF this] show ?case by (simp add: vs a)
qed

lemma recurse_size_dom:
  "recurse_forEach_recurse_dom (Inl (L, v)) \<Longrightarrow> size (fst (recurse L v)) = size v"
  "recurse_forEach_recurse_dom (Inr (L, vs)) \<Longrightarrow>
     size_list size (fst (forEach_recurse L vs)) = size_list size vs \<and>
     length (fst (forEach_recurse L vs)) = length vs"
proof (induct rule: recurse_forEach_recurse.pinduct)
  case (1 L xs)
  obtain xs1 r1 where a: "forEach_recurse L xs = (xs1, r1)" by (cases "forEach_recurse L xs")
  obtain xs2 r2 where b: "forEach_recurse L xs1 = (xs2, r2)" by (cases "forEach_recurse L xs1")
  from 1(2) a have "size_list size xs1 = size_list size xs" by simp
  moreover from 1(3)[OF a[symmetric] refl] b have "size_list size xs2 = size_list size xs1" by simp
  ultimately show ?case using 1(1) a b by (simp add: recurse.psimps)
next
  case (2 L kvs)
  show ?case
  proof (cases "replaceReference L kvs")
    case None
    obtain vs r where a: "forEach_recurse L (map snd kvs) = (vs, r)"
      by (cases "forEach_recurse L (map snd kvs)")
    from 2(2)[OF None] a have s: "size_list size vs = size_list size (map snd kvs)"
      and l: "length vs = length kvs" by simp_all
    from size_zip_values[OF l] s
    have "size_list (size_prod (\<lambda>_. 0) size) (zip (map fst kvs) vs)
            = size_list (size_prod (\<lambda>_. 0) size) kvs" by simp
    then show ?thesis using 2(1) None a by (simp add: recurse.psimps)
  next
    case (Some p)
    obtain kvs' r where p: "p = (kvs', r)" by (cases p)
    from replaceReference_size[of L kvs kvs' r] Some p
    show ?thesis using 2(1) by (simp add: recurse.psimps)
  qed
next
  case (5 L x xs)
  obtain x' r1 where a: "recurse L x = (x', r1)" by (cases "recurse L x")
  obtain xs' r2 where b: "forEach_recurse L xs = (xs', r2)" by (cases "forEach_recurse L xs")
  from 5(2) a have "size x' = size x" by simp
  moreover from 5(3)[OF refl a[symmetric]] b
  have "size_list size xs' = size_list size xs \<and> length xs' = length xs" by simp
  ultimately show ?case using 5(1) a b by (simp add: forEach_recurse.psimps)
qed (simp_all add: recurse.psimps forEach_recurse.psimps)

termination recurse
proof (relation "measure (\<lambda>x. case x of Inl (L, v) \<Rightarrow> size v | Inr (L, vs) \<Rightarrow> size_list size vs)",
       goal_cases)
  case 1
  show ?case by simp
next
  case (2 L xs)
  show ?case by simp
next
  case (3 L xs p xs1 r1)
  from recurse_size_dom(2)[OF 3(3)] 3(2)[symmetric] 3(1)
  show ?case by simp
next
  case (4 L kvs)
  show ?case using size_values_le[of kvs] by simp
next
  case (5 L x xs)
  show ?case by simp
next
  case (6 L x xs p x' r1)
  show ?case by simp
qed

text \<open>
  \<^verbatim>\<open>propagateReplacedReferences(template, logicalId)\<close>: the template after the in-place
  rewrite, and the returned flag.
\<close>

definition propagateReplacedReferences :: "json \<Rightarrow> string \<Rightarrow> json \<times> bool" where
  "propagateReplacedReferences template logicalId = recurse logicalId template"


section \<open>The change set and the replacement oracle\<close>

text \<open>
  The part of \<^verbatim>\<open>CloudFormation.DescribeChangeSetOutput\<close> (aws-sdk) that
  \<^verbatim>\<open>findResourceReplacements\<close> reads. Every field is optional there; \<open>None\<close> is
  \<^verbatim>\<open>undefined\<close>.
\<close>

record ResourceTargetDefinition =
  Attribute :: "string option"
  Name :: "string option"
  RequiresRecreation :: "string option"

record ResourceChangeDetail =
  Target :: "ResourceTargetDefinition option"
  Evaluation :: "string option"

record ResourceChange =
  LogicalResourceId :: "string option"
  Replacement :: "string option"
  Details :: "ResourceChangeDetail list option"

record Change =
  ResourceChange :: "ResourceChange option"

record DescribeChangeSetOutput =
  Changes :: "Change list option"

text \<open>
  \<^verbatim>\<open>types.ResourceReplacements\<close>, as the source builds it: an object from logical ids to
  \<^verbatim>\<open>{ resourceReplaced, propertiesReplaced }\<close>. The values stored in
  \<^verbatim>\<open>propertiesReplaced\<close> are the strings the source assigns; assigning \<^verbatim>\<open>undefined\<close>
  reads back as \<^verbatim>\<open>undefined\<close>, which is \<open>None\<close>.
\<close>

record ResourceReplacement =
  resourceReplaced :: bool
  propertiesReplaced :: "string \<rightharpoonup> string"

type_synonym ResourceReplacements = "string \<rightharpoonup> ResourceReplacement"

text \<open>A property key: \<^verbatim>\<open>Target.Name!\<close> used as a key is the string \<^verbatim>\<open>undefined\<close> when absent.\<close>

definition propertyKey :: "string option \<Rightarrow> string" where
  "propertyKey n = (case n of None \<Rightarrow> ''undefined'' | Some s \<Rightarrow> s)"

text \<open>The body of the inner loop of \<^verbatim>\<open>findResourceReplacements\<close>, for one detail.\<close>

definition recordPropertyChange ::
  "(string \<rightharpoonup> string) \<Rightarrow> ResourceChangeDetail \<Rightarrow> (string \<rightharpoonup> string)" where
  "recordPropertyChange propsReplaced propertyChange =
     (case Target propertyChange of
        None \<Rightarrow> propsReplaced
      | Some target \<Rightarrow>
          if Attribute target = Some ''Properties'' then
            (let requiresReplacement = (RequiresRecreation target = Some ''Always'') in
             if requiresReplacement \<and> Evaluation propertyChange = Some ''Static''
             then propsReplaced(propertyKey (Name target) \<mapsto> ''Always'')
             else if requiresReplacement \<and> Evaluation propertyChange = Some ''Dynamic''
             then propsReplaced(propertyKey (Name target) \<mapsto> ''Conditionally'')
             else propsReplaced(propertyKey (Name target) := RequiresRecreation target))
          else propsReplaced)"

text \<open>The body of the outer loop, for one resource change.\<close>

definition recordResourceChange :: "ResourceReplacements \<Rightarrow> Change \<Rightarrow> ResourceReplacements" where
  "recordResourceChange replacements resourceChange =
     (let details = (case ResourceChange resourceChange of
                       None \<Rightarrow> []
                     | Some rc \<Rightarrow> (case Details rc of None \<Rightarrow> [] | Some ds \<Rightarrow> ds));
          propsReplaced = foldl recordPropertyChange Map.empty details;
          logicalId = (case ResourceChange resourceChange of
                         None \<Rightarrow> ''''
                       | Some rc \<Rightarrow> (case LogicalResourceId rc of None \<Rightarrow> '''' | Some l \<Rightarrow> l))
      in replacements(logicalId \<mapsto>
           \<lparr> resourceReplaced =
               (case ResourceChange resourceChange of
                  None \<Rightarrow> False
                | Some rc \<Rightarrow> Replacement rc = Some ''True''),
             propertiesReplaced = propsReplaced \<rparr>))"

definition findResourceReplacements :: "DescribeChangeSetOutput \<Rightarrow> ResourceReplacements" where
  "findResourceReplacements changeSet =
     foldl recordResourceChange Map.empty
       (case Changes changeSet of None \<Rightarrow> [] | Some cs \<Rightarrow> cs)"

section \<open>Differences\<close>

text \<open>
  The source imports its result types from \<^verbatim>\<open>./diff/types\<close>, the section differs from
  \<^verbatim>\<open>./diff\<close> and \<^verbatim>\<open>deepEqual\<close>, \<^verbatim>\<open>diffKeyedEntities\<close> and \<^verbatim>\<open>unionOf\<close> from
  \<^verbatim>\<open>./diff/util\<close>. Those files are not part of the sources at hand; the definitions of
  this section follow the specification (its sections 3 and 4.1 to 4.4) instead.
\<close>

text \<open>
  Modelled from the spec: \<^verbatim>\<open>types.ResourceImpact\<close> is missing. The states of section 4.4:
  NO_CHANGE, ADDED, REMOVED, WILL_UPDATE, MAY_REPLACE, WILL_REPLACE.
\<close>

datatype ResourceImpact = NO_CHANGE | ADDED | REMOVED | WILL_UPDATE | MAY_REPLACE | WILL_REPLACE

text \<open>
  Modelled from the spec: the severity order of \<^verbatim>\<open>types.ResourceImpact\<close> is missing.
  Ascending NO_CHANGE, WILL_UPDATE, MAY_REPLACE, WILL_REPLACE; ADDED and REMOVED are
  terminal and are never combined with another impact.
\<close>

fun severity :: "ResourceImpact \<Rightarrow> nat" where
  "severity NO_CHANGE = 0"
| "severity WILL_UPDATE = 1"
| "severity MAY_REPLACE = 2"
| "severity WILL_REPLACE = 3"
| "severity ADDED = 0"
| "severity REMOVED = 0"

definition worstImpact :: "ResourceImpact \<Rightarrow> ResourceImpact \<Rightarrow> ResourceImpact" where
  "worstImpact a b = (if severity a < severity b then b else a)"

text \<open>
  Modelled from the spec: \<^verbatim>\<open>types.Difference\<close> is missing. A pair of an old and a new
  value, \<open>JUndefined\<close> for an absent one.
\<close>

record Difference =
  oldValue :: json
  newValue :: json

text \<open>
  Modelled from the spec: \<^verbatim>\<open>types.PropertyDifference\<close> is missing. A value difference with
  the impact of the property; the source guards its read of that impact against
  \<^verbatim>\<open>undefined\<close>, so it is optional here.
\<close>

record PropertyDifference = Difference +
  propertyImpact :: "ResourceImpact option"

text \<open>
  Modelled from the spec: \<^verbatim>\<open>types.ResourceDifference\<close> is missing. The difference of the
  two resources, the differences of the changed properties by name, and those of the
  changed other attributes.
\<close>

record ResourceDifference = Difference +
  propertyDiffs :: "(string \<times> PropertyDifference) list"
  otherDiffs :: "(string \<times> Difference) list"

text \<open>\<^verbatim>\<open>Object.keys(x)\<close> and \<^verbatim>\<open>x[key]\<close> on a value that is an object by its type.\<close>

fun objectKeys :: "json \<Rightarrow> string list" where
  "objectKeys (JObj kvs) = map fst kvs"
| "objectKeys v = []"

fun getProp :: "json \<Rightarrow> string \<Rightarrow> json" where
  "getProp (JObj kvs) key = lookup kvs key"
| "getProp v key = JUndefined"

text \<open>
  Modelled from the spec: the getter \<^verbatim>\<open>changeImpact\<close> of \<^verbatim>\<open>types.ResourceDifference\<close> is
  missing. Section 4.4, steps 1, 2 and 4: REMOVED with only an old value, ADDED with
  only a new one, WILL_REPLACE when the types differ, and otherwise the most severe of
  the property impacts and of WILL_UPDATE for a changed other attribute.
\<close>

definition changeImpact :: "ResourceDifference \<Rightarrow> ResourceImpact" where
  "changeImpact d =
     (if oldValue d \<noteq> JUndefined \<and> newValue d = JUndefined then REMOVED
      else if oldValue d = JUndefined \<and> newValue d \<noteq> JUndefined then ADDED
      else if getProp (oldValue d) ''Type'' \<noteq> getProp (newValue d) ''Type'' then WILL_REPLACE
      else foldl worstImpact (if otherDiffs d = [] then NO_CHANGE else WILL_UPDATE)
             (map (\<lambda>(name, p). case propertyImpact p of None \<Rightarrow> NO_CHANGE | Some i \<Rightarrow> i)
                  (propertyDiffs d)))"

text \<open>
  Modelled from the spec: \<^verbatim>\<open>propertyUpdates\<close> and \<^verbatim>\<open>setPropertyChange\<close> of
  \<^verbatim>\<open>types.ResourceDifference\<close> are missing. The recorded property differences, and the
  mutator of section 4.4, step 5, that overwrites the record of one property.
\<close>

definition propertyUpdates :: "ResourceDifference \<Rightarrow> (string \<times> PropertyDifference) list" where
  "propertyUpdates d = propertyDiffs d"

fun upsert :: "string \<Rightarrow> 'a \<Rightarrow> (string \<times> 'a) list \<Rightarrow> (string \<times> 'a) list" where
  "upsert k v [] = [(k, v)]"
| "upsert k v ((k', v') # rest) =
     (if k = k' then (k, v) # rest
      else if k < k' then (k, v) # (k', v') # rest
      else (k', v') # upsert k v rest)"

definition setPropertyChange ::
  "ResourceDifference \<Rightarrow> string \<Rightarrow> PropertyDifference \<Rightarrow> ResourceDifference" where
  "setPropertyChange d propertyName change =
     d\<lparr> propertyDiffs := upsert propertyName change (propertyDiffs d) \<rparr>"

text \<open>
  Modelled from the spec: \<^verbatim>\<open>deepEqual\<close> of \<^verbatim>\<open>./diff/util\<close> is missing. Section 4.1: equal
  scalars; sequences of equal length with pairwise equal elements; mappings with the same
  key set whose keys map to equal values. \<open>JNull\<close> and \<open>JUndefined\<close> are distinct.
\<close>

lemma size_map_of:
  "map_of kvs k = Some v \<Longrightarrow> size (v :: json) < Suc (size_list (size_prod (\<lambda>_. 0) size) kvs)"
  by (induction kvs) (auto split: if_splits)

lemma size_lookup:
  "k \<in> fst ` set kvs \<Longrightarrow> size (lookup kvs k) < Suc (size_list (size_prod (\<lambda>_. 0) size) kvs)"
proof -
  assume "k \<in> fst ` set kvs"
  then obtain v where "map_of kvs k = Some v"
    by (metis domD dom_map_of_conv_image_fst)
  then show ?thesis using size_map_of[of kvs k v] by (simp add: lookup_def)
qed

lemma size_nth_zip:
  "(x, y) \<in> set (zip xs ys) \<Longrightarrow> size (x :: json) < Suc (size_list size xs)"
  by (metis in_set_zipE less_Suc_eq not_less_eq size_list_estimation)

function deepEqual :: "json \<Rightarrow> json \<Rightarrow> bool" where
  "deepEqual (JArr xs) (JArr ys) =
     (length xs = length ys \<and> list_all (\<lambda>(x, y). deepEqual x y) (zip xs ys))"
| "deepEqual (JObj a) (JObj b) =
     (set (map fst a) \<subseteq> set (map fst b) \<and> set (map fst b) \<subseteq> set (map fst a)
      \<and> list_all (\<lambda>k. deepEqual (lookup a k) (lookup b k)) (map fst a))"
| "deepEqual (JArr xs) (JObj b) = False"
| "deepEqual (JObj a) (JArr ys) = False"
| "deepEqual JUndefined y = (y = JUndefined)"
| "deepEqual JNull y = (y = JNull)"
| "deepEqual (JBool p) y = (y = JBool p)"
| "deepEqual (JNum n) y = (y = JNum n)"
| "deepEqual (JStr s) y = (y = JStr s)"
| "deepEqual (JArr xs) JUndefined = False"
| "deepEqual (JArr xs) JNull = False"
| "deepEqual (JArr xs) (JBool p) = False"
| "deepEqual (JArr xs) (JNum n) = False"
| "deepEqual (JArr xs) (JStr s) = False"
| "deepEqual (JObj a) JUndefined = False"
| "deepEqual (JObj a) JNull = False"
| "deepEqual (JObj a) (JBool p) = False"
| "deepEqual (JObj a) (JNum n) = False"
| "deepEqual (JObj a) (JStr s) = False"
  by pat_completeness auto
termination
proof (relation "measure (\<lambda>(x, y). size x)", goal_cases)
  case 1
  show ?case by simp
next
  case (2 xs ys z x y)
  from 2(1) 2(2)[symmetric] have "(x, y) \<in> set (zip xs ys)" by simp
  from size_nth_zip[OF this] 2(2)[symmetric] show ?case by simp
next
  case (3 a b k)
  then show ?case using size_lookup[of k a] by simp
qed

section \<open>The differs\<close>

text \<open>The errors of section 7 of the specification that this part of the engine can raise.\<close>

datatype error = MalformedInput

text \<open>
  Modelled from the spec: \<^verbatim>\<open>unionOf\<close> of \<^verbatim>\<open>./diff/util\<close> is missing. The union of the keys
  of both maps, each key once.
\<close>

definition unionOf :: "string list \<Rightarrow> string list \<Rightarrow> string list" where
  "unionOf xs ys = remdups (xs @ ys)"

text \<open>
  Modelled from the spec: \<^verbatim>\<open>diffKeyedEntities\<close> of \<^verbatim>\<open>./diff/util\<close> is missing. Section
  4.2: over the sorted union of the keys, a key whose two values are equal is left out and
  any other is given to the element differ, which also learns the key. An absent map
  counts as empty; a value that is no mapping is the MalformedInput of section 7.
\<close>

fun asMapping :: "json \<Rightarrow> error + json" where
  "asMapping JUndefined = Inr (JObj [])"
| "asMapping (JObj kvs) = Inr (JObj kvs)"
| "asMapping v = Inl MalformedInput"

fun diffEach ::
  "(string \<Rightarrow> json \<Rightarrow> json \<Rightarrow> error + 'd) \<Rightarrow> json \<Rightarrow> json \<Rightarrow> string list \<Rightarrow> error + (string \<times> 'd) list"
where
  "diffEach elementDiff oldMap newMap [] = Inr []"
| "diffEach elementDiff oldMap newMap (k # ks) =
     (if deepEqual (getProp oldMap k) (getProp newMap k) then diffEach elementDiff oldMap newMap ks
      else
        (case elementDiff k (getProp oldMap k) (getProp newMap k) of
           Inl e \<Rightarrow> Inl e
         | Inr d \<Rightarrow>
             (case diffEach elementDiff oldMap newMap ks of
                Inl e \<Rightarrow> Inl e
              | Inr ds \<Rightarrow> Inr ((k, d) # ds))))"

definition diffKeyedEntities ::
  "json \<Rightarrow> json \<Rightarrow> (string \<Rightarrow> json \<Rightarrow> json \<Rightarrow> error + 'd) \<Rightarrow> error + (string \<times> 'd) list"
where
  "diffKeyedEntities oldValue' newValue' elementDiff =
     (case asMapping oldValue' of
        Inl e \<Rightarrow> Inl e
      | Inr oldMap \<Rightarrow>
          (case asMapping newValue' of
             Inl e \<Rightarrow> Inl e
           | Inr newMap \<Rightarrow>
               diffEach elementDiff oldMap newMap
                 (sort (unionOf (objectKeys oldMap) (objectKeys newMap)))))"

text \<open>
  Modelled from the spec: \<^verbatim>\<open>diffAttribute\<close>, \<^verbatim>\<open>diffMetadata\<close>, \<^verbatim>\<open>diffParameter\<close>,
  \<^verbatim>\<open>diffMapping\<close>, \<^verbatim>\<open>diffCondition\<close>, \<^verbatim>\<open>diffOutput\<close> and \<^verbatim>\<open>diffUnknown\<close> of \<^verbatim>\<open>./diff\<close>
  are missing. Section 4.3: each is the plain difference of the two values.
\<close>

definition diffAttribute :: "json \<Rightarrow> json \<Rightarrow> Difference" where
  "diffAttribute oldValue' newValue' = \<lparr> oldValue = oldValue', newValue = newValue' \<rparr>"

definition diffMetadata :: "string \<Rightarrow> json \<Rightarrow> json \<Rightarrow> error + Difference" where
  "diffMetadata key oldValue' newValue' = Inr (diffAttribute oldValue' newValue')"

definition diffParameter :: "string \<Rightarrow> json \<Rightarrow> json \<Rightarrow> error + Difference" where
  "diffParameter key oldValue' newValue' = Inr (diffAttribute oldValue' newValue')"

definition diffMapping :: "string \<Rightarrow> json \<Rightarrow> json \<Rightarrow> error + Difference" where
  "diffMapping key oldValue' newValue' = Inr (diffAttribute oldValue' newValue')"

definition diffCondition :: "string \<Rightarrow> json \<Rightarrow> json \<Rightarrow> error + Difference" where
  "diffCondition key oldValue' newValue' = Inr (diffAttribute oldValue' newValue')"

definition diffOutput :: "string \<Rightarrow> json \<Rightarrow> json \<Rightarrow> error + Difference" where
  "diffOutput key oldValue' newValue' = Inr (diffAttribute oldValue' newValue')"

definition diffUnknown :: "json \<Rightarrow> json \<Rightarrow> Difference" where
  "diffUnknown oldValue' newValue' = diffAttribute oldValue' newValue'"

text \<open>
  Modelled from the spec: the static replacement metadata is a table outside the engine
  (section 4.4, step 3b), from a resource type and a property name to Always, Never,
  Conditionally or Unknown. It is a parameter of every definition that consults it.
\<close>

datatype StaticReplacement = StaticAlways | StaticNever | StaticConditionally | StaticUnknown

type_synonym ReplacementTable = "json \<Rightarrow> string \<Rightarrow> StaticReplacement"

text \<open>
  Modelled from the spec: the classification of a changed property inside
  \<^verbatim>\<open>diffResource\<close> is missing. Section 4.4, step 3: the oracle's verdict for the logical id
  and property name first, then the static table, then WILL_UPDATE.
\<close>

definition staticImpact :: "ReplacementTable \<Rightarrow> json \<Rightarrow> string \<Rightarrow> ResourceImpact" where
  "staticImpact table resourceType name =
     (case table resourceType name of
        StaticAlways \<Rightarrow> WILL_REPLACE
      | StaticConditionally \<Rightarrow> MAY_REPLACE
      | StaticNever \<Rightarrow> WILL_UPDATE
      | StaticUnknown \<Rightarrow> WILL_UPDATE)"

definition propertyChangeImpact ::
  "ReplacementTable \<Rightarrow> ResourceReplacement option \<Rightarrow> json \<Rightarrow> string \<Rightarrow> ResourceImpact" where
  "propertyChangeImpact table entry resourceType name =
     (case (case entry of None \<Rightarrow> None | Some e \<Rightarrow> propertiesReplaced e name) of
        None \<Rightarrow> staticImpact table resourceType name
      | Some v \<Rightarrow>
          if v = ''Always'' then WILL_REPLACE
          else if v = ''Conditionally'' then MAY_REPLACE
          else if v = ''Never'' then WILL_UPDATE
          else staticImpact table resourceType name)"

definition diffProperty ::
  "ReplacementTable \<Rightarrow> ResourceReplacement option \<Rightarrow> json \<Rightarrow> string \<Rightarrow> json \<Rightarrow> json
     \<Rightarrow> error + PropertyDifference" where
  "diffProperty table entry resourceType name oldValue' newValue' =
     Inr \<lparr> oldValue = oldValue', newValue = newValue',
           propertyImpact = Some (propertyChangeImpact table entry resourceType name) \<rparr>"

text \<open>The attributes of a resource other than its type and its properties.\<close>

fun otherAttributes :: "json \<Rightarrow> json" where
  "otherAttributes (JObj kvs) = JObj (filter (\<lambda>(k, v). k \<noteq> ''Type'' \<and> k \<noteq> ''Properties'') kvs)"
| "otherAttributes v = v"

text \<open>
  Modelled from the spec: \<^verbatim>\<open>diffResource\<close> of \<^verbatim>\<open>./diff\<close> is missing. Section 4.4: a
  resource on one side only, or a changed type, ends the comparison; otherwise the
  properties are diffed key by key and classified, and so are the other attributes.
  With \<^verbatim>\<open>keepMetadata\<close> false the \<^verbatim>\<open>Metadata\<close> attribute is discarded (section 4.5,
  step 1).
\<close>

definition diffResource ::
  "ReplacementTable \<Rightarrow> ResourceReplacements option \<Rightarrow> bool option
     \<Rightarrow> string \<Rightarrow> json \<Rightarrow> json \<Rightarrow> error + ResourceDifference" where
  "diffResource table replacements keepMetadata key oldValue' newValue' =
     (if oldValue' = JUndefined \<or> newValue' = JUndefined
         \<or> getProp oldValue' ''Type'' \<noteq> getProp newValue' ''Type''
      then Inr \<lparr> oldValue = oldValue', newValue = newValue', propertyDiffs = [], otherDiffs = [] \<rparr>
      else
        (case diffKeyedEntities (getProp oldValue' ''Properties'') (getProp newValue' ''Properties'')
                (diffProperty table
                   (case replacements of None \<Rightarrow> None | Some r \<Rightarrow> r key)
                   (getProp newValue' ''Type'')) of
           Inl e \<Rightarrow> Inl e
         | Inr props \<Rightarrow>
             (case diffKeyedEntities (otherAttributes oldValue') (otherAttributes newValue')
                     (\<lambda>k a b. Inr (diffAttribute a b)) of
                Inl e \<Rightarrow> Inl e
              | Inr others \<Rightarrow>
                  Inr \<lparr> oldValue = oldValue', newValue = newValue',
                        propertyDiffs = props,
                        otherDiffs =
                          (if keepMetadata = Some False
                           then filter (\<lambda>(k, d). k \<noteq> ''Metadata'') others
                           else others) \<rparr>)))"

text \<open>
  Modelled from the spec: \<^verbatim>\<open>types.TemplateDiff\<close> and \<^verbatim>\<open>types.DifferenceCollection\<close> are
  missing. Section 3: one collection per section, ordered by key; a section that no
  handler has set is empty. A collection is the list of its entries.
\<close>

record TemplateDiff =
  awsTemplateFormatVersion :: "Difference option"
  description :: "Difference option"
  metadata :: "(string \<times> Difference) list"
  parameters :: "(string \<times> Difference) list"
  mappings :: "(string \<times> Difference) list"
  conditions :: "(string \<times> Difference) list"
  transform :: "Difference option"
  resources :: "(string \<times> ResourceDifference) list"
  outputs :: "(string \<times> Difference) list"
  unknown :: "(string \<times> Difference) list"

definition emptyTemplateDiff :: TemplateDiff where
  "emptyTemplateDiff =
     \<lparr> awsTemplateFormatVersion = None, description = None, metadata = [], parameters = [],
       mappings = [], conditions = [], transform = None, resources = [], outputs = [],
       unknown = [] \<rparr>"

text \<open>
  Modelled from the spec: \<^verbatim>\<open>get\<close> of \<^verbatim>\<open>types.DifferenceCollection\<close> is missing. Section 3:
  the lookup never fails; an absent id gives an empty difference.
\<close>

definition emptyResourceDifference :: ResourceDifference where
  "emptyResourceDifference =
     \<lparr> oldValue = JUndefined, newValue = JUndefined, propertyDiffs = [], otherDiffs = [] \<rparr>"

definition getDifference :: "(string \<times> ResourceDifference) list \<Rightarrow> string \<Rightarrow> ResourceDifference" where
  "getDifference collection logicalId =
     (case map_of collection logicalId of None \<Rightarrow> emptyResourceDifference | Some d \<Rightarrow> d)"

section \<open>The engine\<close>

text \<open>
  \<^verbatim>\<open>DIFF_HANDLERS\<close>: the handler of a section name, \<open>None\<close> when the table has none. A
  handler returns the differences with its section set.
\<close>

type_synonym DiffHandler =
  "TemplateDiff \<Rightarrow> json \<Rightarrow> json \<Rightarrow> ResourceReplacements option \<Rightarrow> bool option \<Rightarrow> error + TemplateDiff"

definition DIFF_HANDLERS :: "ReplacementTable \<Rightarrow> string \<Rightarrow> DiffHandler option" where
  "DIFF_HANDLERS table section =
     (if section = ''AWSTemplateFormatVersion'' then
        Some (\<lambda>diff oldValue' newValue' replacements keepMetadata.
          Inr (diff\<lparr> awsTemplateFormatVersion := Some (diffAttribute oldValue' newValue') \<rparr>))
      else if section = ''Description'' then
        Some (\<lambda>diff oldValue' newValue' replacements keepMetadata.
          Inr (diff\<lparr> description := Some (diffAttribute oldValue' newValue') \<rparr>))
      else if section = ''Metadata'' then
        Some (\<lambda>diff oldValue' newValue' replacements keepMetadata.
          map_sum id (\<lambda>c. diff\<lparr> metadata := c \<rparr>)
            (diffKeyedEntities oldValue' newValue' diffMetadata))
      else if section = ''Parameters'' then
        Some (\<lambda>diff oldValue' newValue' replacements keepMetadata.
          map_sum id (\<lambda>c. diff\<lparr> parameters := c \<rparr>)
            (diffKeyedEntities oldValue' newValue' diffParameter))
      else if section = ''Mappings'' then
        Some (\<lambda>diff oldValue' newValue' replacements keepMetadata.
          map_sum id (\<lambda>c. diff\<lparr> mappings := c \<rparr>)
            (diffKeyedEntities oldValue' newValue' diffMapping))
      else if section = ''Conditions'' then
        Some (\<lambda>diff oldValue' newValue' replacements keepMetadata.
          map_sum id (\<lambda>c. diff\<lparr> conditions := c \<rparr>)
            (diffKeyedEntities oldValue' newValue' diffCondition))
      else if section = ''Transform'' then
        Some (\<lambda>diff oldValue' newValue' replacements keepMetadata.
          Inr (diff\<lparr> transform := Some (diffAttribute oldValue' newValue') \<rparr>))
      else if section = ''Resources'' then
        Some (\<lambda>diff oldValue' newValue' replacements keepMetadata.
          map_sum id (\<lambda>c. diff\<lparr> resources := c \<rparr>)
            (diffKeyedEntities oldValue' newValue' (diffResource table replacements keepMetadata)))
      else if section = ''Outputs'' then
        Some (\<lambda>diff oldValue' newValue' replacements keepMetadata.
          map_sum id (\<lambda>c. diff\<lparr> outputs := c \<rparr>)
            (diffKeyedEntities oldValue' newValue' diffOutput))
      else None)"

text \<open>
  \<^verbatim>\<open>calculateTemplateDiff\<close>. The loop over the sorted keys is \<open>handleKeys\<close>; a key without
  a handler goes to the \<^verbatim>\<open>unknown\<close> bucket, which becomes the collection of that name.
  An error raised by a handler ends the computation.
\<close>

fun handleKeys ::
  "ReplacementTable \<Rightarrow> json \<Rightarrow> json \<Rightarrow> ResourceReplacements option \<Rightarrow> bool option
     \<Rightarrow> string list \<Rightarrow> TemplateDiff \<Rightarrow> error + TemplateDiff" where
  "handleKeys table currentTemplate newTemplate replacements keepMetadata [] differences =
     Inr differences"
| "handleKeys table currentTemplate newTemplate replacements keepMetadata (key # ks) differences =
     (let oldValue' = getProp currentTemplate key;
          newValue' = getProp newTemplate key
      in if deepEqual oldValue' newValue'
         then handleKeys table currentTemplate newTemplate replacements keepMetadata ks differences
         else
           (case (case DIFF_HANDLERS table key of
                    Some handler \<Rightarrow> handler differences oldValue' newValue' replacements keepMetadata
                  | None \<Rightarrow>
                      Inr (differences\<lparr> unknown :=
                             unknown differences @ [(key, diffUnknown oldValue' newValue')] \<rparr>)) of
              Inl e \<Rightarrow> Inl e
            | Inr differences' \<Rightarrow>
                handleKeys table currentTemplate newTemplate replacements keepMetadata ks differences'))"

definition calculateTemplateDiff ::
  "ReplacementTable \<Rightarrow> json \<Rightarrow> json \<Rightarrow> ResourceReplacements option \<Rightarrow> bool option
     \<Rightarrow> error + TemplateDiff" where
  "calculateTemplateDiff table currentTemplate newTemplate replacements keepMetadata =
     handleKeys table currentTemplate newTemplate replacements keepMetadata
       (sort (unionOf (objectKeys currentTemplate) (objectKeys newTemplate)))
       emptyTemplateDiff"

definition isReplacement :: "ResourceImpact \<Rightarrow> bool" where
  "isReplacement impact = (impact = MAY_REPLACE \<or> impact = WILL_REPLACE)"

text \<open>\<^verbatim>\<open>propagatePropertyReplacement(source, dest)\<close>: the destination afterwards.\<close>

definition propagatePropertyReplacement ::
  "ResourceDifference \<Rightarrow> ResourceDifference \<Rightarrow> ResourceDifference" where
  "propagatePropertyReplacement source dest =
     foldl (\<lambda>dest' (propertyName, diff).
              if (case propertyImpact diff of None \<Rightarrow> False | Some i \<Rightarrow> isReplacement i)
              then setPropertyChange dest' propertyName diff
              else dest')
       dest (propertyUpdates source)"

text \<open>
  \<^verbatim>\<open>deepCopy\<close>. The keys of an object are distinct, so \<^verbatim>\<open>x[key]\<close> for a key of
  \<^verbatim>\<open>Object.keys(x)\<close> is the value of that entry.
\<close>

fun deepCopy :: "json \<Rightarrow> json" where
  "deepCopy (JArr xs) = JArr (map deepCopy xs)"
| "deepCopy (JObj kvs) = JObj (map (\<lambda>kv. (fst kv, deepCopy (snd kv))) kvs)"
| "deepCopy x = x"

section \<open>A measure for the propagation loop\<close>

text \<open>
  The loop of \<^verbatim>\<open>diffTemplate\<close> ends because every rewrite makes a reference longer, and
  only a reference that names a resource of one of the two templates is rewritten. The
  weight of a reference is the number of resource ids that are at least as long as it is;
  \<open>pending\<close> adds up the weights of the references that \<^verbatim>\<open>recurse\<close> can reach.
\<close>

definition weight :: "string list \<Rightarrow> string \<Rightarrow> nat" where
  "weight S s = length (filter (\<lambda>t. length s \<le> length t) S)"

fun refTarget :: "(string \<times> json) list \<Rightarrow> string option option" where
  "refTarget [(key, v)] =
     (if key = ''Ref'' then (case v of JStr s \<Rightarrow> Some (Some s) | _ \<Rightarrow> Some None)
      else if prefix ''Fn::'' key then
        (case v of JArr (JStr s # rest) \<Rightarrow> Some (Some s) | _ \<Rightarrow> Some None)
      else None)"
| "refTarget kvs = None"

function pending :: "string list \<Rightarrow> json \<Rightarrow> nat"
  and pendingAll :: "string list \<Rightarrow> json list \<Rightarrow> nat"
where
  "pending S (JArr xs) = pendingAll S xs"
| "pending S (JObj kvs) =
     (case refTarget kvs of
        Some None \<Rightarrow> 0
      | Some (Some s) \<Rightarrow> weight S s
      | None \<Rightarrow> pendingAll S (map snd kvs))"
| "pending S JUndefined = 0"
| "pending S JNull = 0"
| "pending S (JBool b) = 0"
| "pending S (JNum n) = 0"
| "pending S (JStr s) = 0"
| "pendingAll S [] = 0"
| "pendingAll S (x # xs) = pending S x + pendingAll S xs"
  by pat_completeness auto
termination pending
proof (relation "measure (\<lambda>x. case x of Inl (S, v) \<Rightarrow> size v | Inr (S, vs) \<Rightarrow> size_list size vs)",
       goal_cases)
  case (3 S kvs)
  show ?case using size_values_le[of kvs] by simp
qed simp_all

lemma weight_mono: "length s \<le> length s' \<Longrightarrow> weight S s' \<le> weight S s"
proof -
  assume a: "length s \<le> length s'"
  have "filter (\<lambda>t. length s' \<le> length t) S
          = filter (\<lambda>t. length s' \<le> length t) (filter (\<lambda>t. length s \<le> length t) S)"
    using a by (auto intro: filter_cong)
  then show ?thesis unfolding weight_def by (metis length_filter_le)
qed

lemma weight_less: "L \<in> set S \<Longrightarrow> length L < length s' \<Longrightarrow> weight S s' < weight S L"
proof -
  assume m: "L \<in> set S" and a: "length L < length s'"
  have e: "filter (\<lambda>t. length s' \<le> length t) S
          = filter (\<lambda>t. length s' \<le> length t) (filter (\<lambda>t. length L \<le> length t) S)"
    using a by (auto intro: filter_cong)
  have "L \<in> set (filter (\<lambda>t. length L \<le> length t) S)" using m by simp
  moreover have "\<not> length s' \<le> length L" using a by simp
  ultimately have "length (filter (\<lambda>t. length s' \<le> length t) (filter (\<lambda>t. length L \<le> length t) S))
                     < length (filter (\<lambda>t. length L \<le> length t) S)"
    by (rule length_filter_less)
  then show ?thesis unfolding weight_def using e by simp
qed

lemma replaceReference_None_iff: "replaceReference L kvs = None \<longleftrightarrow> refTarget kvs = None"
  by (cases "(L, kvs)" rule: replaceReference.cases)
     (auto split: json.splits list.splits)

lemma replaceReference_Some_key:
  "replaceReference L kvs = Some (kvs', r) \<Longrightarrow> \<exists>key v. kvs = [(key, v)] \<and> (key = ''Ref'' \<or> prefix ''Fn::'' key)"
  by (cases "(L, kvs)" rule: replaceReference.cases)
     (auto split: if_splits json.splits list.splits)

lemma replaceReference_pending:
  assumes "replaceReference L kvs = Some (kvs', r)"
  shows "pending S (JObj kvs') \<le> pending S (JObj kvs)
         \<and> (L \<in> set S \<longrightarrow> r \<longrightarrow> pending S (JObj kvs') < pending S (JObj kvs))"
proof -
  from replaceReference_Some_key[OF assms]
  obtain key v where kvs: "kvs = [(key, v)]" by blast
  show ?thesis
  proof (cases "key = ''Ref''")
    case True
    show ?thesis
    proof (cases "v = JStr L")
      case True
      with \<open>key = ''Ref''\<close> assms kvs have "kvs' = [(''Ref'', JStr (L @ '' (replaced)''))]" "r" by auto
      then show ?thesis using True \<open>key = ''Ref''\<close> kvs
        by (auto intro: weight_mono weight_less)
    next
      case False
      with \<open>key = ''Ref''\<close> assms kvs have "kvs' = kvs" "\<not> r" by auto
      then show ?thesis by simp
    qed
  next
    case False
    with assms kvs have p: "prefix ''Fn::'' key" by (auto split: if_splits)
    show ?thesis
    proof (cases "\<exists>rest. v = JArr (JStr L # rest)")
      case True
      then obtain rest where v: "v = JArr (JStr L # rest)" by blast
      with False p assms kvs have "kvs' = [(key, JArr (JStr (L @ ''(replaced)'') # rest))]" "r" by auto
      then show ?thesis using v False p kvs
        by (auto intro: weight_mono weight_less)
    next
      case F2: False
      with False p assms kvs have "kvs' = kvs" "\<not> r"
        by (auto split: json.splits list.splits if_splits)
      then show ?thesis by simp
    qed
  qed
qed

lemma pendingAll_zip:
  "length vs = length kvs \<Longrightarrow> map snd (zip (map fst kvs) vs) = vs"
  by (induction kvs arbitrary: vs) (auto simp: length_Suc_conv)

lemma refTarget_keys:
  "map fst kvs' = map fst kvs \<Longrightarrow> refTarget kvs = None \<Longrightarrow> refTarget kvs' = None"
  by (cases kvs rule: refTarget.cases; cases kvs' rule: refTarget.cases)
     (auto split: if_splits json.splits list.splits)

lemma recurse_pending:
  "pending S (fst (recurse L v)) \<le> pending S v
     \<and> (L \<in> set S \<longrightarrow> snd (recurse L v) \<longrightarrow> pending S (fst (recurse L v)) < pending S v)"
  "pendingAll S (fst (forEach_recurse L vs)) \<le> pendingAll S vs
     \<and> length (fst (forEach_recurse L vs)) = length vs
     \<and> (L \<in> set S \<longrightarrow> snd (forEach_recurse L vs)
          \<longrightarrow> pendingAll S (fst (forEach_recurse L vs)) < pendingAll S vs)"
proof (induction L v and L vs rule: recurse_forEach_recurse.induct)
  case (1 L xs)
  obtain xs1 r1 where a: "forEach_recurse L xs = (xs1, r1)" by (cases "forEach_recurse L xs")
  obtain xs2 r2 where b: "forEach_recurse L xs1 = (xs2, r2)" by (cases "forEach_recurse L xs1")
  from 1(1) a have one: "pendingAll S xs1 \<le> pendingAll S xs"
    "L \<in> set S \<longrightarrow> r1 \<longrightarrow> pendingAll S xs1 < pendingAll S xs" by simp_all
  from 1(2)[OF a[symmetric] refl] b have two: "pendingAll S xs2 \<le> pendingAll S xs1"
    "L \<in> set S \<longrightarrow> r2 \<longrightarrow> pendingAll S xs2 < pendingAll S xs1" by simp_all
  from one two show ?case using a b by auto
next
  case (2 L kvs)
  show ?case
  proof (cases "replaceReference L kvs")
    case None
    obtain vs r where a: "forEach_recurse L (map snd kvs) = (vs, r)"
      by (cases "forEach_recurse L (map snd kvs)")
    from 2[OF None] a have le: "pendingAll S vs \<le> pendingAll S (map snd kvs)"
      and len: "length vs = length kvs"
      and lt: "L \<in> set S \<longrightarrow> r \<longrightarrow> pendingAll S vs < pendingAll S (map snd kvs)" by simp_all
    have t: "refTarget kvs = None" using None by (simp add: replaceReference_None_iff)
    have "map fst (zip (map fst kvs) vs) = map fst kvs" using len by simp
    from refTarget_keys[OF this t] have t': "refTarget (zip (map fst kvs) vs) = None" .
    have r: "recurse L (JObj kvs) = (JObj (zip (map fst kvs) vs), r)" using None a by simp
    show ?thesis unfolding r using t t' le lt pendingAll_zip[OF len] by simp
  next
    case (Some p)
    obtain kvs' r where p: "p = (kvs', r)" by (cases p)
    from Some p have r: "recurse L (JObj kvs) = (JObj kvs', r)" by simp
    from replaceReference_pending[of L kvs kvs' r S] Some p show ?thesis unfolding r by simp
  qed
next
  case (5 L x xs)
  obtain x' r1 where a: "recurse L x = (x', r1)" by (cases "recurse L x")
  obtain xs' r2 where b: "forEach_recurse L xs = (xs', r2)" by (cases "forEach_recurse L xs")
  from 5(1) a have one: "pending S x' \<le> pending S x"
    "L \<in> set S \<longrightarrow> r1 \<longrightarrow> pending S x' < pending S x" by simp_all
  from 5(2)[OF refl a[symmetric]] b have two: "pendingAll S xs' \<le> pendingAll S xs"
    "length xs' = length xs"
    "L \<in> set S \<longrightarrow> r2 \<longrightarrow> pendingAll S xs' < pendingAll S xs" by simp_all
  from one two show ?case using a b by auto
qed simp_all

lemma forEach_recurse_map: "fst (forEach_recurse L vs) = map (\<lambda>v. fst (recurse L v)) vs"
  by (induction vs) (auto split: prod.splits)

lemma replaceReference_keys:
  "replaceReference L kvs = Some (kvs', r) \<Longrightarrow> map fst kvs' = map fst kvs"
  by (cases "(L, kvs)" rule: replaceReference.cases)
     (auto split: if_splits json.splits list.splits)

lemma recurse_JObj_None:
  "replaceReference L kvs = None \<Longrightarrow>
   fst (recurse L (JObj kvs)) = JObj (zip (map fst kvs) (map (\<lambda>v. fst (recurse L v)) (map snd kvs)))"
  using forEach_recurse_map[of L "map snd kvs"]
  by (cases "forEach_recurse L (map snd kvs)") simp

lemma recurse_keys: "objectKeys (fst (recurse L v)) = objectKeys v"
proof (cases v)
  case (JObj kvs)
  show ?thesis
  proof (cases "replaceReference L kvs")
    case None
    show ?thesis unfolding JObj recurse_JObj_None[OF None] by simp
  next
    case (Some p)
    obtain kvs' r where p: "p = (kvs', r)" by (cases p)
    from replaceReference_keys[of L kvs kvs' r] Some p show ?thesis unfolding JObj by simp
  qed
next
  case (JArr xs)
  then show ?thesis by (simp split: prod.splits)
qed simp_all

lemma map_of_zip_map:
  "map_of (zip (map fst kvs) (map (f \<circ> snd) kvs)) k = map_option f (map_of kvs k)"
  by (induction kvs) auto

lemma recurse_getProp:
  assumes "k \<noteq> ''Ref''" "\<not> prefix ''Fn::'' k"
  shows "getProp (fst (recurse L T)) k = fst (recurse L (getProp T k))"
proof (cases T)
  case (JObj kvs)
  show ?thesis
  proof (cases "replaceReference L kvs")
    case None
    show ?thesis unfolding JObj recurse_JObj_None[OF None]
      by (simp add: lookup_def map_of_zip_map split: option.splits)
  next
    case (Some p)
    obtain kvs' r where p: "p = (kvs', r)" by (cases p)
    from replaceReference_Some_key[of L kvs kvs' r] Some p
    obtain key v where kvs: "kvs = [(key, v)]" and key: "key = ''Ref'' \<or> prefix ''Fn::'' key" by auto
    from replaceReference_keys[of L kvs kvs' r] Some p kvs
    obtain v' where kvs': "kvs' = [(key, v')]" by (cases kvs') auto
    from key assms have "key \<noteq> k" by auto
    then show ?thesis unfolding JObj using Some p kvs kvs' by (simp add: lookup_def)
  qed
next
  case (JArr xs)
  then show ?thesis by (simp split: prod.splits)
qed simp_all

definition resourceIds :: "json \<Rightarrow> json \<Rightarrow> string list" where
  "resourceIds currentTemplate newTemplate =
     objectKeys (getProp currentTemplate ''Resources'') @ objectKeys (getProp newTemplate ''Resources'')"

lemma resourceIds_recurse: "resourceIds cur (fst (recurse L T)) = resourceIds cur T"
proof -
  have "getProp (fst (recurse L T)) ''Resources'' = fst (recurse L (getProp T ''Resources''))"
    by (rule recurse_getProp) simp_all
  then show ?thesis by (simp add: resourceIds_def recurse_keys)
qed

lemma diffEach_keys: "diffEach f om nm ks = Inr ds \<Longrightarrow> set (map fst ds) \<subseteq> set ks"
proof (induction ks arbitrary: ds)
  case Nil
  then show ?case by simp
next
  case (Cons k ks)
  then show ?case by (fastforce split: if_splits sum.splits)
qed

lemma asMapping_keys: "asMapping v = Inr m \<Longrightarrow> objectKeys m = objectKeys v"
  by (cases v) auto

lemma diffKeyedEntities_keys:
  "diffKeyedEntities a b f = Inr ds \<Longrightarrow> set (map fst ds) \<subseteq> set (objectKeys a) \<union> set (objectKeys b)"
proof -
  assume h: "diffKeyedEntities a b f = Inr ds"
  then obtain om nm where om: "asMapping a = Inr om" and nm: "asMapping b = Inr nm"
    and d: "diffEach f om nm (sort (unionOf (objectKeys om) (objectKeys nm))) = Inr ds"
    by (auto simp: diffKeyedEntities_def split: sum.splits)
  from diffEach_keys[OF d] asMapping_keys[OF om] asMapping_keys[OF nm]
  show ?thesis by (simp add: unionOf_def)
qed

lemma handler_resources:
  assumes "DIFF_HANDLERS table key = Some h" "h d a b repl keep = Inr d'"
  shows "resources d' = resources d
         \<or> (key = ''Resources'' \<and> set (map fst (resources d')) \<subseteq> set (objectKeys a) \<union> set (objectKeys b))"
proof (cases "key = ''Resources''")
  case True
  with assms obtain c where c: "diffKeyedEntities a b (diffResource table repl keep) = Inr c"
    and d': "d' = d\<lparr>resources := c\<rparr>"
    by (cases "diffKeyedEntities a b (diffResource table repl keep)") (auto simp: DIFF_HANDLERS_def)
  from diffKeyedEntities_keys[OF c] d' True show ?thesis by simp
next
  case False
  with assms show ?thesis
    by (auto simp: DIFF_HANDLERS_def map_sum_def split: if_splits sum.splits)
qed

lemma handleKeys_resources:
  assumes "handleKeys table cur new repl keep ks d = Inr d'"
    "set (map fst (resources d)) \<subseteq> set (resourceIds cur new)"
  shows "set (map fst (resources d')) \<subseteq> set (resourceIds cur new)"
  using assms
proof (induction ks arbitrary: d)
  case Nil
  then show ?case by simp
next
  case (Cons key ks)
  show ?case
  proof (cases "deepEqual (getProp cur key) (getProp new key)")
    case True
    with Cons show ?thesis by simp
  next
    case False
    show ?thesis
    proof (cases "DIFF_HANDLERS table key")
      case None
      with False Cons.prems(1)
      have "handleKeys table cur new repl keep ks
              (d\<lparr>unknown := unknown d @ [(key, diffUnknown (getProp cur key) (getProp new key))]\<rparr>) = Inr d'"
        by (simp add: Let_def)
      from Cons.IH[OF this] Cons.prems(2) show ?thesis by simp
    next
      case (Some h)
      with False Cons.prems(1) obtain d1 where
        h: "h d (getProp cur key) (getProp new key) repl keep = Inr d1"
        and r: "handleKeys table cur new repl keep ks d1 = Inr d'"
        by (auto simp: Let_def split: sum.splits)
      from handler_resources[OF Some h]
      have "set (map fst (resources d1)) \<subseteq> set (resourceIds cur new)"
      proof
        assume "resources d1 = resources d"
        with Cons.prems(2) show ?thesis by simp
      next
        assume "key = ''Resources'' \<and> set (map fst (resources d1))
                  \<subseteq> set (objectKeys (getProp cur key)) \<union> set (objectKeys (getProp new key))"
        then have "key = ''Resources''" and "set (map fst (resources d1))
                  \<subseteq> set (objectKeys (getProp cur key)) \<union> set (objectKeys (getProp new key))"
          by blast+
        then show ?thesis unfolding resourceIds_def by auto
      qed
      from Cons.IH[OF r this] show ?thesis .
    qed
  qed
qed

lemma calculateTemplateDiff_ids:
  "calculateTemplateDiff table cur new repl keep = Inr d \<Longrightarrow>
   set (map fst (resources d)) \<subseteq> set (resourceIds cur new)"
  unfolding calculateTemplateDiff_def
  by (erule handleKeys_resources) (simp add: emptyTemplateDiff_def)

section \<open>Propagation and the template diff\<close>

text \<open>
  The body of the callback given to \<^verbatim>\<open>forEachDifference\<close> inside the loop: the working
  copy and the flag \<^verbatim>\<open>didPropagateReferenceChanges\<close> before and after one difference.
\<close>

definition propagateStep :: "json \<times> bool \<Rightarrow> string \<times> ResourceDifference \<Rightarrow> json \<times> bool" where
  "propagateStep state entry =
     (case state of (newTemplateCopy, didPropagateReferenceChanges) \<Rightarrow>
      case entry of (logicalId, change) \<Rightarrow>
        if changeImpact change = WILL_REPLACE then
          (case propagateReplacedReferences newTemplateCopy logicalId of
             (newTemplateCopy', ret) \<Rightarrow>
               (newTemplateCopy', if ret then True else didPropagateReferenceChanges))
        else (newTemplateCopy, didPropagateReferenceChanges))"

lemma propagateStep_pending:
  assumes "fst e \<in> set S" "propagateStep (c, b) e = (c', b')"
  shows "pending S c' \<le> pending S c \<and> (b' \<and> \<not> b \<longrightarrow> pending S c' < pending S c)
         \<and> resourceIds cur c' = resourceIds cur c \<and> (b \<longrightarrow> b')"
proof -
  obtain l ch where e: "e = (l, ch)" by (cases e)
  show ?thesis
  proof (cases "changeImpact ch = WILL_REPLACE")
    case False
    with assms e show ?thesis by (simp add: propagateStep_def)
  next
    case True
    obtain c1 r where p: "recurse l c = (c1, r)" by (cases "recurse l c")
    with True assms(2) e have c': "c' = c1" and b': "b' = (if r then True else b)"
      by (simp_all add: propagateStep_def propagateReplacedReferences_def)
    from recurse_pending(1)[of S l c] p assms(1) e
    have "pending S c1 \<le> pending S c" "r \<longrightarrow> pending S c1 < pending S c" by simp_all
    moreover from resourceIds_recurse[of cur l c] p have "resourceIds cur c1 = resourceIds cur c" by simp
    ultimately show ?thesis using c' b' by auto
  qed
qed

lemma foldl_propagateStep_pending:
  assumes "\<forall>e \<in> set es. fst e \<in> set S" "foldl propagateStep (c, b) es = (c', b')"
  shows "pending S c' \<le> pending S c \<and> (b' \<and> \<not> b \<longrightarrow> pending S c' < pending S c)
         \<and> resourceIds cur c' = resourceIds cur c \<and> (b \<longrightarrow> b')"
  using assms
proof (induction es arbitrary: c b)
  case Nil
  then show ?case by simp
next
  case (Cons e es)
  obtain c1 b1 where s: "propagateStep (c, b) e = (c1, b1)" by (cases "propagateStep (c, b) e")
  from Cons.prems(1) have m: "fst e \<in> set S" and ms: "\<forall>e \<in> set es. fst e \<in> set S" by simp_all
  from Cons.prems(2) s have f: "foldl propagateStep (c1, b1) es = (c', b')" by simp
  from propagateStep_pending[OF m s, of cur] Cons.IH[OF ms f] show ?case by auto
qed

text \<open>
  The do-while loop of \<^verbatim>\<open>diffTemplate\<close>. It returns the last \<^verbatim>\<open>diffWithReplacements\<close>
  and, for the statements about its length, the number of iterations that ended with
  \<^verbatim>\<open>didPropagateReferenceChanges\<close> set. Modelled from the spec: \<^verbatim>\<open>forEachDifference\<close> of
  \<^verbatim>\<open>types.DifferenceCollection\<close> is missing; it visits the entries in key order
  (section 3).
\<close>

function propagationLoop ::
  "ReplacementTable \<Rightarrow> json \<Rightarrow> json \<Rightarrow> ResourceReplacements option \<Rightarrow> error + (TemplateDiff \<times> nat)"
where
  "propagationLoop table currentTemplate newTemplateCopy replacements =
     (case calculateTemplateDiff table currentTemplate newTemplateCopy replacements None of
        Inl e \<Rightarrow> Inl e
      | Inr diffWithReplacements \<Rightarrow>
          (case foldl propagateStep (newTemplateCopy, False) (resources diffWithReplacements) of
             (newTemplateCopy', didPropagateReferenceChanges) \<Rightarrow>
               if didPropagateReferenceChanges
               then (case propagationLoop table currentTemplate newTemplateCopy' replacements of
                       Inl e \<Rightarrow> Inl e
                     | Inr (d, n) \<Rightarrow> Inr (d, Suc n))
               else Inr (diffWithReplacements, 0)))"
  by pat_completeness auto
termination propagationLoop
proof (relation "measure (\<lambda>(table, cur, copy, repl). pending (resourceIds cur copy) copy)", goal_cases)
  case 1
  show ?case by simp
next
  case (2 table cur copy repl d copy' did)
  from calculateTemplateDiff_ids[OF 2(1)]
  have ids: "\<forall>e \<in> set (resources d). fst e \<in> set (resourceIds cur copy)" by auto
  from 2(2) have f: "foldl propagateStep (copy, False) (resources d) = (copy', did)" by simp
  from foldl_propagateStep_pending[OF ids f, of cur] 2(3)
  show ?case by simp
qed

declare propagationLoop.simps [simp del]

text \<open>
  The last statement of \<^verbatim>\<open>diffTemplate\<close>: copy the replaced states of
  \<^verbatim>\<open>diffWithReplacements\<close> to \<^verbatim>\<open>theDiff\<close>. Modelled from the spec: \<^verbatim>\<open>filter\<close> of
  \<^verbatim>\<open>types.DifferenceCollection\<close> is missing; it keeps the entries that satisfy the
  predicate. The difference looked up in \<^verbatim>\<open>theDiff\<close> is mutated in place; here it is
  written back under its logical id.
\<close>

definition copyReplacedStates :: "TemplateDiff \<Rightarrow> TemplateDiff \<Rightarrow> TemplateDiff" where
  "copyReplacedStates diffWithReplacements theDiff =
     foldl (\<lambda>theDiff' (logicalId, downstreamReplacement).
              (let resource = getDifference (resources theDiff') logicalId
               in if changeImpact resource \<noteq> changeImpact downstreamReplacement
                  then theDiff'\<lparr> resources :=
                         upsert logicalId (propagatePropertyReplacement downstreamReplacement resource)
                           (resources theDiff') \<rparr>
                  else theDiff'))
       theDiff
       (filter (\<lambda>(logicalId, r). isReplacement (changeImpact r)) (resources diffWithReplacements))"

text \<open>The base diff of \<^verbatim>\<open>diffTemplate\<close>, its first two statements.\<close>

definition baseDiff ::
  "ReplacementTable \<Rightarrow> json \<Rightarrow> json \<Rightarrow> DescribeChangeSetOutput option \<Rightarrow> error + TemplateDiff" where
  "baseDiff table currentTemplate newTemplate changeSet =
     calculateTemplateDiff table currentTemplate newTemplate
       (case changeSet of None \<Rightarrow> None | Some cs \<Rightarrow> Some (findResourceReplacements cs))
       (Some (case changeSet of None \<Rightarrow> True | Some cs \<Rightarrow> False))"

text \<open>\<^verbatim>\<open>diffTemplate\<close>.\<close>

definition diffTemplate ::
  "ReplacementTable \<Rightarrow> json \<Rightarrow> json \<Rightarrow> DescribeChangeSetOutput option \<Rightarrow> error + TemplateDiff" where
  "diffTemplate table currentTemplate newTemplate changeSet =
     (let replacements = (case changeSet of None \<Rightarrow> None | Some cs \<Rightarrow> Some (findResourceReplacements cs))
      in case baseDiff table currentTemplate newTemplate changeSet of
           Inl e \<Rightarrow> Inl e
         | Inr theDiff \<Rightarrow>
             (let newTemplateCopy = deepCopy newTemplate
              in case propagationLoop table currentTemplate newTemplateCopy replacements of
                   Inl e \<Rightarrow> Inl e
                 | Inr (diffWithReplacements, rounds) \<Rightarrow>
                     Inr (copyReplacedStates diffWithReplacements theDiff)))"

section \<open>Tables and a change set for the examples\<close>

text \<open>
  Two static tables: one that knows nothing, so that every changed property is updated in
  place unless the oracle says otherwise, and one for which every property forces
  replacement.
\<close>

definition noStaticKnowledge :: ReplacementTable where
  "noStaticKnowledge resourceType name = StaticUnknown"

definition everyPropertyReplaces :: ReplacementTable where
  "everyPropertyReplaces resourceType name = StaticAlways"

text \<open>
  A change set with two resources: one replaced, with a static and a dynamic detail that
  require recreation, one that does not and one that targets another attribute; and one
  without details.
\<close>

definition exampleChangeSet :: DescribeChangeSetOutput where
  "exampleChangeSet =
     \<lparr> Changes = Some
        [\<lparr> ResourceChange = Some
            \<lparr> LogicalResourceId = Some ''Bucket'',
              Replacement = Some ''True'',
              Details = Some
                [\<lparr> Target = Some \<lparr> Attribute = Some ''Properties'', Name = Some ''BucketName'',
                                    RequiresRecreation = Some ''Always'' \<rparr>,
                   Evaluation = Some ''Static'' \<rparr>,
                 \<lparr> Target = Some \<lparr> Attribute = Some ''Properties'', Name = Some ''Policy'',
                                    RequiresRecreation = Some ''Always'' \<rparr>,
                   Evaluation = Some ''Dynamic'' \<rparr>,
                 \<lparr> Target = Some \<lparr> Attribute = Some ''Properties'', Name = Some ''Tags'',
                                    RequiresRecreation = Some ''Never'' \<rparr>,
                   Evaluation = Some ''Static'' \<rparr>,
                 \<lparr> Target = Some \<lparr> Attribute = Some ''Metadata'', Name = None,
                                    RequiresRecreation = Some ''Always'' \<rparr>,
                   Evaluation = Some ''Static'' \<rparr>] \<rparr> \<rparr>,
         \<lparr> ResourceChange = Some
            \<lparr> LogicalResourceId = Some ''Queue'',
              Replacement = Some ''False'',
              Details = None \<rparr> \<rparr>] \<rparr>"

text \<open>
  A table for which only the property \<^verbatim>\<open>Source\<close> forces replacement, and the view of a diff
  that the examples compare: per resource its impact and the impacts of its properties.
\<close>

definition sourceReplaces :: ReplacementTable where
  "sourceReplaces resourceType name = (if name = ''Source'' then StaticAlways else StaticNever)"

definition impactsOf ::
  "TemplateDiff \<Rightarrow> (string \<times> ResourceImpact \<times> (string \<times> ResourceImpact option) list) list" where
  "impactsOf d =
     map (\<lambda>(l, r). (l, changeImpact r, map (\<lambda>(p, pd). (p, propertyImpact pd)) (propertyDiffs r)))
       (resources d)"

section \<open>Properties of the rewrite\<close>

lemma replaceReference_not_single: "length kvs \<noteq> 1 \<Longrightarrow> replaceReference L kvs = None"
  by (cases "(L, kvs)" rule: replaceReference.cases) auto

lemma recurse_JStr: "recurse L (JStr s) = (JStr s, False)"
  by simp

lemma forEach_recurse_nth:
  "forEach_recurse L vs = (vs', r) \<Longrightarrow>
     length vs' = length vs \<and> (\<forall>i<length vs. vs' ! i = fst (recurse L (vs ! i)))"
proof (induction vs arbitrary: vs' r)
  case Nil
  then show ?case by simp
next
  case (Cons x xs)
  obtain x' r1 where a: "recurse L x = (x', r1)" by (cases "recurse L x")
  obtain xs' r2 where b: "forEach_recurse L xs = (xs', r2)" by (cases "forEach_recurse L xs")
  from Cons.prems a b have vs': "vs' = x' # xs'" by simp
  from Cons.IH[OF b] have len: "length xs' = length xs"
    and nth: "\<forall>i<length xs. xs' ! i = fst (recurse L (xs ! i))" by simp_all
  show ?case
  proof (intro conjI allI impI)
    show "length vs' = length (x # xs)" using vs' len by simp
  next
    fix i assume "i < length (x # xs)"
    then show "vs' ! i = fst (recurse L ((x # xs) ! i))"
      using vs' a nth by (cases i) simp_all
  qed
qed

lemma fn_not_descended:
  assumes "prefix ''Fn::'' key" "\<forall>rest. v \<noteq> JArr (JStr L # rest)"
  shows "recurse L (JObj [(key, v)]) = (JObj [(key, v)], False)"
proof -
  from assms(1) have k: "key \<noteq> ''Ref''" by auto
  from assms(2) k assms(1) have "replaceReference L [(key, v)] = Some ([(key, v)], False)"
    by (auto split: json.splits list.splits)
  then show ?thesis by simp
qed

lemma fn_first_only:
  assumes "prefix ''Fn::'' key"
  shows "recurse L (JObj [(key, JArr (JStr L # rest))])
           = (JObj [(key, JArr (JStr (L @ ''(replaced)'') # rest))], True)"
proof -
  from assms have k: "key \<noteq> ''Ref''" by auto
  with assms show ?thesis by simp
qed

lemma ref_not_descended:
  "v \<noteq> JStr L \<Longrightarrow> recurse L (JObj [(''Ref'', v)]) = (JObj [(''Ref'', v)], False)"
  by simp

lemma ref_beside_other_key:
  assumes "length kvs \<noteq> 1" "i < length kvs" "kvs ! i = (''Ref'', JStr s)"
  shows "\<exists>kvs' r. recurse L (JObj kvs) = (JObj kvs', r) \<and> length kvs' = length kvs
           \<and> kvs' ! i = (''Ref'', JStr s)"
proof -
  obtain vs r where a: "forEach_recurse L (map snd kvs) = (vs, r)"
    by (cases "forEach_recurse L (map snd kvs)")
  from forEach_recurse_nth[OF a] have len: "length vs = length kvs"
    and nth: "\<forall>j<length kvs. vs ! j = fst (recurse L (map snd kvs ! j))" by simp_all
  from nth assms(2,3) have "vs ! i = JStr s" by simp
  with len assms(2,3) have "zip (map fst kvs) vs ! i = (''Ref'', JStr s)" by simp
  moreover have "recurse L (JObj kvs) = (JObj (zip (map fst kvs) vs), r)"
    using replaceReference_not_single[OF assms(1)] a by simp
  ultimately show ?thesis using len by simp
qed

section \<open>A template compared with itself\<close>

lemma deepEqual_refl: "deepEqual v v"
proof (induction v rule: measure_induct_rule[of size])
  case (less v)
  show ?case
  proof (cases v)
    case (JArr xs)
    have "\<And>x y. (x, y) \<in> set (zip xs xs) \<Longrightarrow> deepEqual x y"
    proof -
      fix x y assume m: "(x, y) \<in> set (zip xs xs)"
      then have "x = y" by (simp add: zip_same)
      moreover from size_nth_zip[OF m] have "size x < size v" using JArr by simp
      ultimately show "deepEqual x y" using less by simp
    qed
    then show ?thesis unfolding JArr by (auto simp: list_all_iff)
  next
    case (JObj a)
    have "\<And>k. k \<in> fst ` set a \<Longrightarrow> deepEqual (lookup a k) (lookup a k)"
    proof -
      fix k assume "k \<in> fst ` set a"
      from size_lookup[OF this] have "size (lookup a k) < size v" using JObj by simp
      then show "deepEqual (lookup a k) (lookup a k)" by (rule less)
    qed
    then show ?thesis unfolding JObj by (auto simp: list_all_iff)
  qed simp_all
qed

lemma handleKeys_same:
  "handleKeys table T T repl keep ks d = Inr d"
  by (induction ks) (simp_all add: deepEqual_refl)

lemma calculateTemplateDiff_same:
  "calculateTemplateDiff table T T repl keep = Inr emptyTemplateDiff"
  by (simp add: calculateTemplateDiff_def handleKeys_same)

lemma deepCopy_same: "deepCopy v = v"
  by (induction v rule: deepCopy.induct) (simp_all add: map_idI)

lemma propagationLoop_same:
  "propagationLoop table T T repl = Inr (emptyTemplateDiff, 0)"
  by (subst propagationLoop.simps) (simp add: calculateTemplateDiff_same emptyTemplateDiff_def)

lemma copyReplacedStates_empty:
  "copyReplacedStates emptyTemplateDiff theDiff = theDiff"
  by (simp add: copyReplacedStates_def emptyTemplateDiff_def)

section \<open>Properties of the copy of replaced states\<close>

lemma map_of_upsert: "map_of (upsert k v xs) = (map_of xs)(k \<mapsto> v)"
  by (induction xs) (auto simp: fun_upd_twist)

lemma getDifference_upsert:
  "getDifference (upsert l d c) l' = (if l' = l then d else getDifference c l')"
  by (simp add: getDifference_def map_of_upsert)

text \<open>The two folds of the copy, with their step functions named.\<close>

definition copyStep :: "TemplateDiff \<Rightarrow> string \<times> ResourceDifference \<Rightarrow> TemplateDiff" where
  "copyStep theDiff' entry =
     (case entry of (logicalId, downstreamReplacement) \<Rightarrow>
        (let resource = getDifference (resources theDiff') logicalId
         in if changeImpact resource \<noteq> changeImpact downstreamReplacement
            then theDiff'\<lparr> resources :=
                   upsert logicalId (propagatePropertyReplacement downstreamReplacement resource)
                     (resources theDiff') \<rparr>
            else theDiff'))"

lemma copyReplacedStates_alt:
  "copyReplacedStates dwr theDiff =
     foldl copyStep theDiff
       (filter (\<lambda>(logicalId, r). isReplacement (changeImpact r)) (resources dwr))"
proof -
  have "(\<lambda>theDiff' (logicalId, downstreamReplacement).
              (let resource = getDifference (resources theDiff') logicalId
               in if changeImpact resource \<noteq> changeImpact downstreamReplacement
                  then theDiff'\<lparr> resources :=
                         upsert logicalId (propagatePropertyReplacement downstreamReplacement resource)
                           (resources theDiff') \<rparr>
                  else theDiff')) = copyStep"
    by (intro ext) (simp add: copyStep_def split: prod.splits)
  then show ?thesis by (simp add: copyReplacedStates_def)
qed

lemma copyStep_other:
  "l \<noteq> fst e \<Longrightarrow> getDifference (resources (copyStep td e)) l = getDifference (resources td) l"
  by (cases e) (simp add: copyStep_def Let_def getDifference_upsert)

lemma copyStep_self:
  "getDifference (resources (copyStep td (k, down))) k =
     (if changeImpact (getDifference (resources td) k) \<noteq> changeImpact down
      then propagatePropertyReplacement down (getDifference (resources td) k)
      else getDifference (resources td) k)"
  by (simp add: copyStep_def Let_def getDifference_upsert)

lemma foldl_copyStep_other:
  "l \<notin> fst ` set es \<Longrightarrow>
   getDifference (resources (foldl copyStep td es)) l = getDifference (resources td) l"
  by (induction es arbitrary: td) (simp_all add: copyStep_other)

lemma foldl_copyStep:
  assumes "distinct (map fst es)"
  shows "getDifference (resources (foldl copyStep td es)) l =
     (case map_of es l of
        None \<Rightarrow> getDifference (resources td) l
      | Some down \<Rightarrow>
          if changeImpact (getDifference (resources td) l) \<noteq> changeImpact down
          then propagatePropertyReplacement down (getDifference (resources td) l)
          else getDifference (resources td) l)"
  using assms
proof (induction es arbitrary: td)
  case Nil
  show ?case by simp
next
  case (Cons e es)
  obtain k down where e: "e = (k, down)" by (cases e)
  from Cons.prems have d: "distinct (map fst es)" and k: "k \<notin> fst ` set es" by (auto simp: e)
  show ?case
  proof (cases "l = k")
    case True
    from k True have "getDifference (resources (foldl copyStep (copyStep td e) es)) l
                        = getDifference (resources (copyStep td e)) l"
      by (simp add: foldl_copyStep_other)
    then show ?thesis using True e by (simp add: copyStep_self)
  next
    case False
    then have o: "getDifference (resources (copyStep td e)) l = getDifference (resources td) l"
      using e by (simp add: copyStep_other)
    have "getDifference (resources (foldl copyStep td (e # es))) l
            = getDifference (resources (foldl copyStep (copyStep td e) es)) l" by simp
    also note Cons.IH[OF d, of "copyStep td e"]
    finally show ?thesis unfolding o using False e by simp
  qed
qed

lemma foldl_copyStep_sections:
  "awsTemplateFormatVersion (foldl copyStep td es) = awsTemplateFormatVersion td
   \<and> description (foldl copyStep td es) = description td
   \<and> metadata (foldl copyStep td es) = metadata td
   \<and> parameters (foldl copyStep td es) = parameters td
   \<and> mappings (foldl copyStep td es) = mappings td
   \<and> conditions (foldl copyStep td es) = conditions td
   \<and> transform (foldl copyStep td es) = transform td
   \<and> outputs (foldl copyStep td es) = outputs td
   \<and> unknown (foldl copyStep td es) = unknown td"
proof (induction es arbitrary: td)
  case Nil
  show ?case by simp
next
  case (Cons e es)
  obtain k down where e: "e = (k, down)" by (cases e)
  have "awsTemplateFormatVersion (copyStep td e) = awsTemplateFormatVersion td
   \<and> description (copyStep td e) = description td
   \<and> metadata (copyStep td e) = metadata td
   \<and> parameters (copyStep td e) = parameters td
   \<and> mappings (copyStep td e) = mappings td
   \<and> conditions (copyStep td e) = conditions td
   \<and> transform (copyStep td e) = transform td
   \<and> outputs (copyStep td e) = outputs td
   \<and> unknown (copyStep td e) = unknown td"
    by (simp add: e copyStep_def Let_def)
  with Cons[of "copyStep td e"] show ?case by simp
qed

definition replacementOf :: "PropertyDifference \<Rightarrow> bool" where
  "replacementOf diff = (case propertyImpact diff of None \<Rightarrow> False | Some i \<Rightarrow> isReplacement i)"

definition propertyStep ::
  "ResourceDifference \<Rightarrow> string \<times> PropertyDifference \<Rightarrow> ResourceDifference" where
  "propertyStep dest' entry =
     (case entry of (propertyName, diff) \<Rightarrow>
        if replacementOf diff then setPropertyChange dest' propertyName diff else dest')"

lemma propagatePropertyReplacement_alt:
  "propagatePropertyReplacement source dest = foldl propertyStep dest (propertyUpdates source)"
proof -
  have "(\<lambda>dest' (propertyName, diff).
              if (case propertyImpact diff of None \<Rightarrow> False | Some i \<Rightarrow> isReplacement i)
              then setPropertyChange dest' propertyName diff
              else dest') = propertyStep"
    by (intro ext) (simp add: propertyStep_def replacementOf_def split: prod.splits)
  then show ?thesis by (simp add: propagatePropertyReplacement_def)
qed

lemma foldl_propertyStep:
  "map_of (propertyDiffs (foldl propertyStep dest ps)) p =
     (case lastWhere (\<lambda>(n, d). n = p \<and> replacementOf d) ps of
        None \<Rightarrow> map_of (propertyDiffs dest) p
      | Some (n, d) \<Rightarrow> Some d)
   \<and> oldValue (foldl propertyStep dest ps) = oldValue dest
   \<and> newValue (foldl propertyStep dest ps) = newValue dest
   \<and> otherDiffs (foldl propertyStep dest ps) = otherDiffs dest"
proof (induction ps rule: rev_induct)
  case Nil
  show ?case by (simp add: lastWhere_Nil)
next
  case (snoc e ps)
  obtain n d where e: "e = (n, d)" by (cases e)
  have step: "map_of (propertyDiffs (propertyStep r (n, d))) p
                = (if n = p \<and> replacementOf d then Some d else map_of (propertyDiffs r) p)
              \<and> oldValue (propertyStep r (n, d)) = oldValue r
              \<and> newValue (propertyStep r (n, d)) = newValue r
              \<and> otherDiffs (propertyStep r (n, d)) = otherDiffs r" for r
    by (simp add: propertyStep_def setPropertyChange_def map_of_upsert)
  have "foldl propertyStep dest (ps @ [e]) = propertyStep (foldl propertyStep dest ps) (n, d)"
    by (simp add: e)
  then show ?case using snoc step[of "foldl propertyStep dest ps"]
    by (simp add: lastWhere_snoc e)
qed

lemma diffEach_distinct:
  "distinct ks \<Longrightarrow> diffEach f om nm ks = Inr ds \<Longrightarrow> distinct (map fst ds)"
proof (induction ks arbitrary: ds)
  case Nil
  then show ?case by simp
next
  case (Cons k ks)
  show ?case
  proof (cases "deepEqual (getProp om k) (getProp nm k)")
    case True
    with Cons show ?thesis by simp
  next
    case False
    with Cons.prems(2) obtain d ds' where
      r: "diffEach f om nm ks = Inr ds'" and ds: "ds = (k, d) # ds'"
      by (auto split: sum.splits)
    from diffEach_keys[OF r] Cons.prems(1) have "k \<notin> set (map fst ds')" by auto
    moreover from Cons.IH[OF _ r] Cons.prems(1) have "distinct (map fst ds')" by simp
    ultimately show ?thesis using ds by simp
  qed
qed

lemma diffKeyedEntities_distinct:
  "diffKeyedEntities a b f = Inr ds \<Longrightarrow> distinct (map fst ds)"
proof -
  assume h: "diffKeyedEntities a b f = Inr ds"
  then obtain om nm where
    d: "diffEach f om nm (sort (unionOf (objectKeys om) (objectKeys nm))) = Inr ds"
    by (auto simp: diffKeyedEntities_def split: sum.splits)
  show ?thesis by (rule diffEach_distinct[OF _ d]) (simp add: unionOf_def)
qed

lemma handler_resources_distinct:
  assumes "DIFF_HANDLERS table key = Some h" "h d a b repl keep = Inr d'"
    "distinct (map fst (resources d))"
  shows "distinct (map fst (resources d'))"
proof (cases "key = ''Resources''")
  case True
  with assms obtain c where c: "diffKeyedEntities a b (diffResource table repl keep) = Inr c"
    and d': "d' = d\<lparr>resources := c\<rparr>"
    by (cases "diffKeyedEntities a b (diffResource table repl keep)") (auto simp: DIFF_HANDLERS_def)
  from diffKeyedEntities_distinct[OF c] d' show ?thesis by simp
next
  case False
  with assms have "resources d' = resources d"
    by (auto simp: DIFF_HANDLERS_def map_sum_def split: if_splits sum.splits)
  with assms(3) show ?thesis by simp
qed

lemma handleKeys_distinct:
  assumes "handleKeys table cur new repl keep ks d = Inr d'" "distinct (map fst (resources d))"
  shows "distinct (map fst (resources d'))"
  using assms
proof (induction ks arbitrary: d)
  case Nil
  then show ?case by simp
next
  case (Cons key ks)
  show ?case
  proof (cases "deepEqual (getProp cur key) (getProp new key)")
    case True
    with Cons show ?thesis by simp
  next
    case False
    show ?thesis
    proof (cases "DIFF_HANDLERS table key")
      case None
      with False Cons.prems(1)
      have "handleKeys table cur new repl keep ks
              (d\<lparr>unknown := unknown d @ [(key, diffUnknown (getProp cur key) (getProp new key))]\<rparr>) = Inr d'"
        by (simp add: Let_def)
      from Cons.IH[OF this] Cons.prems(2) show ?thesis by simp
    next
      case (Some h)
      with False Cons.prems(1) obtain d1 where
        h: "h d (getProp cur key) (getProp new key) repl keep = Inr d1"
        and r: "handleKeys table cur new repl keep ks d1 = Inr d'"
        by (auto simp: Let_def split: sum.splits)
      from Cons.IH[OF r handler_resources_distinct[OF Some h Cons.prems(2)]] show ?thesis .
    qed
  qed
qed

lemma calculateTemplateDiff_distinct:
  "calculateTemplateDiff table cur new repl keep = Inr d \<Longrightarrow> distinct (map fst (resources d))"
  unfolding calculateTemplateDiff_def
  by (erule handleKeys_distinct) (simp add: emptyTemplateDiff_def)

lemma propagationLoop_result:
  "propagationLoop table cur copy repl = Inr (d, n) \<Longrightarrow>
   \<exists>copy'. calculateTemplateDiff table cur copy' repl None = Inr d"
proof (induction table cur copy repl arbitrary: d n rule: propagationLoop.induct)
  case (1 table cur copy repl)
  from "1.prems" obtain d0 where c: "calculateTemplateDiff table cur copy repl None = Inr d0"
    by (subst (asm) propagationLoop.simps) (auto split: sum.splits)
  obtain copy' did where f: "foldl propagateStep (copy, False) (resources d0) = (copy', did)"
    by (cases "foldl propagateStep (copy, False) (resources d0)")
  show ?case
  proof (cases did)
    case False
    with "1.prems" c f have "d = d0" by (subst (asm) propagationLoop.simps) simp
    with c show ?thesis by blast
  next
    case True
    with "1.prems" c f obtain n' where "propagationLoop table cur copy' repl = Inr (d, n')"
      by (subst (asm) propagationLoop.simps) (auto split: sum.splits)
    from "1.IH"[OF c f[symmetric] True this] show ?thesis .
  qed
qed

lemma map_of_filter_distinct:
  "distinct (map fst es) \<Longrightarrow>
   map_of (filter (\<lambda>(k, v). P v) es) l =
     (case map_of es l of None \<Rightarrow> None | Some v \<Rightarrow> if P v then Some v else None)"
proof (induction es)
  case Nil
  show ?case by simp
next
  case (Cons e es)
  obtain k v where e: "e = (k, v)" by (cases e)
  from Cons.prems have d: "distinct (map fst es)" and k: "k \<notin> fst ` set es" by (auto simp: e)
  from k have n: "map_of es k = None" by (simp add: map_of_eq_None_iff)
  show ?case using Cons.IH[OF d] n by (auto simp: e)
qed

lemma copyReplacedStates_lookup:
  assumes "distinct (map fst (resources dwr))"
  shows "getDifference (resources (copyReplacedStates dwr theDiff)) l =
     (case map_of (resources dwr) l of
        None \<Rightarrow> getDifference (resources theDiff) l
      | Some down \<Rightarrow>
          if isReplacement (changeImpact down)
             \<and> changeImpact (getDifference (resources theDiff) l) \<noteq> changeImpact down
          then propagatePropertyReplacement down (getDifference (resources theDiff) l)
          else getDifference (resources theDiff) l)"
proof -
  let ?es = "filter (\<lambda>(logicalId, r). isReplacement (changeImpact r)) (resources dwr)"
  from assms have d: "distinct (map fst ?es)" by (simp add: distinct_map_filter)
  have m: "map_of ?es l = (case map_of (resources dwr) l of None \<Rightarrow> None
             | Some v \<Rightarrow> if isReplacement (changeImpact v) then Some v else None)"
    by (rule map_of_filter_distinct[OF assms])
  show ?thesis unfolding copyReplacedStates_alt foldl_copyStep[OF d] m
    by (simp split: option.splits)
qed

section \<open>Counting the rounds of the loop\<close>


















lemma asMapping_getProp: "asMapping v = Inr m \<Longrightarrow> getProp m k = getProp v k"
  by (cases v) (auto simp: lookup_def)








section \<open>Copying the replaced states\<close>

text \<open>
  Two pairs of templates. In the first, resource \<^verbatim>\<open>A\<close> is renamed and so is \<^verbatim>\<open>B\<close>, which
  refers to \<^verbatim>\<open>A\<close> in its property \<^verbatim>\<open>Source\<close>. In the second only \<^verbatim>\<open>A\<close> changes, and \<^verbatim>\<open>B\<close>
  refers to it in \<^verbatim>\<open>Source\<close>, which forces replacement, and in \<^verbatim>\<open>Tag\<close>, which does not.
\<close>

definition renamedOld :: json where
  "renamedOld = JObj [(''Resources'', JObj
     [(''A'', JObj [(''Type'', JStr ''T''), (''Properties'', JObj [(''Name'', JStr ''foo'')])]),
      (''B'', JObj [(''Type'', JStr ''T''),
                   (''Properties'', JObj [(''Name'', JStr ''x''),
                                         (''Source'', JObj [(''Ref'', JStr ''A'')])])])])]"

definition renamedNew :: json where
  "renamedNew = JObj [(''Resources'', JObj
     [(''A'', JObj [(''Type'', JStr ''T''), (''Properties'', JObj [(''Name'', JStr ''bar'')])]),
      (''B'', JObj [(''Type'', JStr ''T''),
                   (''Properties'', JObj [(''Name'', JStr ''y''),
                                         (''Source'', JObj [(''Ref'', JStr ''A'')])])])])]"

definition taggedOld :: json where
  "taggedOld = JObj [(''Resources'', JObj
     [(''A'', JObj [(''Type'', JStr ''T''), (''Properties'', JObj [(''Source'', JStr ''foo'')])]),
      (''B'', JObj [(''Type'', JStr ''T''),
                   (''Properties'', JObj [(''Source'', JObj [(''Ref'', JStr ''A'')]),
                                         (''Tag'', JObj [(''Ref'', JStr ''A'')])])])])]"

definition taggedNew :: json where
  "taggedNew = JObj [(''Resources'', JObj
     [(''A'', JObj [(''Type'', JStr ''T''), (''Properties'', JObj [(''Source'', JStr ''bar'')])]),
      (''B'', JObj [(''Type'', JStr ''T''),
                   (''Properties'', JObj [(''Source'', JObj [(''Ref'', JStr ''A'')]),
                                         (''Tag'', JObj [(''Ref'', JStr ''A'')])])])])]"

lemma renamed_example:
  "map_sum id (\<lambda>(d, n). impactsOf d)
      (propagationLoop everyPropertyReplaces renamedOld (deepCopy renamedNew) None)
     = Inr [(''A'', WILL_REPLACE, [(''Name'', Some WILL_REPLACE)]),
            (''B'', WILL_REPLACE, [(''Name'', Some WILL_REPLACE), (''Source'', Some WILL_REPLACE)])]
   \<and> map_sum id impactsOf (baseDiff everyPropertyReplaces renamedOld renamedNew None)
     = Inr [(''A'', WILL_REPLACE, [(''Name'', Some WILL_REPLACE)]),
            (''B'', WILL_REPLACE, [(''Name'', Some WILL_REPLACE)])]
   \<and> map_sum id impactsOf (diffTemplate everyPropertyReplaces renamedOld renamedNew None)
     = Inr [(''A'', WILL_REPLACE, [(''Name'', Some WILL_REPLACE)]),
            (''B'', WILL_REPLACE, [(''Name'', Some WILL_REPLACE)])]"
  by code_simp

lemma tagged_example:
  "map_sum id (\<lambda>(d, n). impactsOf d)
      (propagationLoop sourceReplaces taggedOld (deepCopy taggedNew) None)
     = Inr [(''A'', WILL_REPLACE, [(''Source'', Some WILL_REPLACE)]),
            (''B'', WILL_REPLACE, [(''Source'', Some WILL_REPLACE), (''Tag'', Some WILL_UPDATE)])]
   \<and> map_sum id impactsOf (baseDiff sourceReplaces taggedOld taggedNew None)
     = Inr [(''A'', WILL_REPLACE, [(''Source'', Some WILL_REPLACE)])]
   \<and> map_sum id impactsOf (diffTemplate sourceReplaces taggedOld taggedNew None)
     = Inr [(''A'', WILL_REPLACE, [(''Source'', Some WILL_REPLACE)]),
            (''B'', WILL_REPLACE, [(''Source'', Some WILL_REPLACE)])]"
  by code_simp

text \<open>
  The claim as stated fails on both pairs. In the first the propagated diff gives
  \<^verbatim>\<open>Source\<close> of \<^verbatim>\<open>B\<close> the impact WILL_REPLACE and the original diff has no record of it, yet
  nothing is copied, because the impact of the resource is WILL_REPLACE in both diffs. In
  the second \<^verbatim>\<open>Tag\<close> of \<^verbatim>\<open>B\<close> has the impact WILL_UPDATE in the propagated diff and no record
  in the original, yet it is not copied, because it is no replacement.
\<close>

theorem copied_impacts_counterexample:
  "map_sum id (\<lambda>(d, n). impactsOf d)
      (propagationLoop everyPropertyReplaces renamedOld (deepCopy renamedNew) None)
     = Inr [(''A'', WILL_REPLACE, [(''Name'', Some WILL_REPLACE)]),
            (''B'', WILL_REPLACE, [(''Name'', Some WILL_REPLACE), (''Source'', Some WILL_REPLACE)])]
   \<and> map_sum id impactsOf (baseDiff everyPropertyReplaces renamedOld renamedNew None)
     = Inr [(''A'', WILL_REPLACE, [(''Name'', Some WILL_REPLACE)]),
            (''B'', WILL_REPLACE, [(''Name'', Some WILL_REPLACE)])]
   \<and> map_sum id impactsOf (diffTemplate everyPropertyReplaces renamedOld renamedNew None)
     = Inr [(''A'', WILL_REPLACE, [(''Name'', Some WILL_REPLACE)]),
            (''B'', WILL_REPLACE, [(''Name'', Some WILL_REPLACE)])]
   \<and> map_sum id (\<lambda>(d, n). impactsOf d)
      (propagationLoop sourceReplaces taggedOld (deepCopy taggedNew) None)
     = Inr [(''A'', WILL_REPLACE, [(''Source'', Some WILL_REPLACE)]),
            (''B'', WILL_REPLACE, [(''Source'', Some WILL_REPLACE), (''Tag'', Some WILL_UPDATE)])]
   \<and> map_sum id impactsOf (baseDiff sourceReplaces taggedOld taggedNew None)
     = Inr [(''A'', WILL_REPLACE, [(''Source'', Some WILL_REPLACE)])]
   \<and> map_sum id impactsOf (diffTemplate sourceReplaces taggedOld taggedNew None)
     = Inr [(''A'', WILL_REPLACE, [(''Source'', Some WILL_REPLACE)]),
            (''B'', WILL_REPLACE, [(''Source'', Some WILL_REPLACE)])]"
  using renamed_example tagged_example by (intro conjI) blast+

text \<open>
  C1, amended. After the loop has converged, for every resource whose propagated
  difference has the impact MAY_REPLACE or WILL_REPLACE and whose impact differs from that
  of its difference in the original diff, \<^verbatim>\<open>diffTemplate\<close> copies into the original difference
  each property difference of the propagated one whose own impact is MAY_REPLACE or
  WILL_REPLACE. Every other resource difference is returned as the base diff has it, and
  within a copied-to difference the other properties, the two values and the other
  attributes stay as they were.
\<close>

theorem copied_replaced_states:
  assumes "diffTemplate table currentTemplate newTemplate changeSet = Inr result"
  shows "\<exists>theDiff diffWithReplacements rounds.
     baseDiff table currentTemplate newTemplate changeSet = Inr theDiff
     \<and> propagationLoop table currentTemplate (deepCopy newTemplate)
          (case changeSet of None \<Rightarrow> None | Some cs \<Rightarrow> Some (findResourceReplacements cs))
         = Inr (diffWithReplacements, rounds)
     \<and> (\<forall>logicalId.
           getDifference (resources result) logicalId =
             (case map_of (resources diffWithReplacements) logicalId of
                None \<Rightarrow> getDifference (resources theDiff) logicalId
              | Some downstream \<Rightarrow>
                  if isReplacement (changeImpact downstream)
                     \<and> changeImpact (getDifference (resources theDiff) logicalId)
                         \<noteq> changeImpact downstream
                  then propagatePropertyReplacement downstream
                         (getDifference (resources theDiff) logicalId)
                  else getDifference (resources theDiff) logicalId))
     \<and> (\<forall>source dest propertyName.
           map_of (propertyDiffs (propagatePropertyReplacement source dest)) propertyName =
             (case lastWhere (\<lambda>(name, diff). name = propertyName
                               \<and> (propertyImpact diff = Some MAY_REPLACE
                                    \<or> propertyImpact diff = Some WILL_REPLACE))
                     (propertyUpdates source) of
                None \<Rightarrow> map_of (propertyDiffs dest) propertyName
              | Some (name, diff) \<Rightarrow> Some diff)
           \<and> oldValue (propagatePropertyReplacement source dest) = oldValue dest
           \<and> newValue (propagatePropertyReplacement source dest) = newValue dest
           \<and> otherDiffs (propagatePropertyReplacement source dest) = otherDiffs dest)"
proof -
  let ?repl = "case changeSet of None \<Rightarrow> None | Some cs \<Rightarrow> Some (findResourceReplacements cs)"
  from assms obtain theDiff dwr rounds where
    b: "baseDiff table currentTemplate newTemplate changeSet = Inr theDiff"
    and p: "propagationLoop table currentTemplate (deepCopy newTemplate) ?repl = Inr (dwr, rounds)"
    and r: "result = copyReplacedStates dwr theDiff"
    by (auto simp: diffTemplate_def Let_def split: sum.splits)
  from propagationLoop_result[OF p] obtain copy' where
    "calculateTemplateDiff table currentTemplate copy' ?repl None = Inr dwr" ..
  from calculateTemplateDiff_distinct[OF this] have d: "distinct (map fst (resources dwr))" .
  have q: "(\<lambda>(name, diff). name = propertyName
                               \<and> (propertyImpact diff = Some MAY_REPLACE
                                    \<or> propertyImpact diff = Some WILL_REPLACE))
           = (\<lambda>(n, d). n = propertyName \<and> replacementOf d)" for propertyName
    by (intro ext) (auto simp: replacementOf_def isReplacement_def split: option.splits)
  have lk: "\<forall>logicalId.
           getDifference (resources result) logicalId =
             (case map_of (resources dwr) logicalId of
                None \<Rightarrow> getDifference (resources theDiff) logicalId
              | Some downstream \<Rightarrow>
                  if isReplacement (changeImpact downstream)
                     \<and> changeImpact (getDifference (resources theDiff) logicalId)
                         \<noteq> changeImpact downstream
                  then propagatePropertyReplacement downstream
                         (getDifference (resources theDiff) logicalId)
                  else getDifference (resources theDiff) logicalId)"
    unfolding r using copyReplacedStates_lookup[OF d] by blast
  have pr: "\<forall>source dest propertyName.
           map_of (propertyDiffs (propagatePropertyReplacement source dest)) propertyName =
             (case lastWhere (\<lambda>(name, diff). name = propertyName
                               \<and> (propertyImpact diff = Some MAY_REPLACE
                                    \<or> propertyImpact diff = Some WILL_REPLACE))
                     (propertyUpdates source) of
                None \<Rightarrow> map_of (propertyDiffs dest) propertyName
              | Some (name, diff) \<Rightarrow> Some diff)
           \<and> oldValue (propagatePropertyReplacement source dest) = oldValue dest
           \<and> newValue (propagatePropertyReplacement source dest) = newValue dest
           \<and> otherDiffs (propagatePropertyReplacement source dest) = otherDiffs dest"
    unfolding q propagatePropertyReplacement_alt
    using foldl_propertyStep by simp
  show ?thesis
    by (rule exI[of _ theDiff], rule exI[of _ dwr], rule exI[of _ rounds])
       (intro conjI b p lk pr)
qed

theorem copied_replaced_states_witness:
  "\<exists>result theDiff diffWithReplacements rounds.
     diffTemplate sourceReplaces taggedOld taggedNew None = Inr result
     \<and> impactsOf result
         = [(''A'', WILL_REPLACE, [(''Source'', Some WILL_REPLACE)]),
            (''B'', WILL_REPLACE, [(''Source'', Some WILL_REPLACE)])]
     \<and> baseDiff sourceReplaces taggedOld taggedNew None = Inr theDiff
     \<and> propagationLoop sourceReplaces taggedOld (deepCopy taggedNew) None
         = Inr (diffWithReplacements, rounds)
     \<and> getDifference (resources result) ''B'' =
         (case map_of (resources diffWithReplacements) ''B'' of
            None \<Rightarrow> getDifference (resources theDiff) ''B''
          | Some downstream \<Rightarrow>
              if isReplacement (changeImpact downstream)
                 \<and> changeImpact (getDifference (resources theDiff) ''B'')
                     \<noteq> changeImpact downstream
              then propagatePropertyReplacement downstream
                     (getDifference (resources theDiff) ''B'')
              else getDifference (resources theDiff) ''B'')"
proof -
  from tagged_example obtain result where
    r: "diffTemplate sourceReplaces taggedOld taggedNew None = Inr result"
    and i: "impactsOf result
         = [(''A'', WILL_REPLACE, [(''Source'', Some WILL_REPLACE)]),
            (''B'', WILL_REPLACE, [(''Source'', Some WILL_REPLACE)])]"
    by (cases "diffTemplate sourceReplaces taggedOld taggedNew None") auto
  from copied_replaced_states [OF r] obtain theDiff dwr rounds where
    b: "baseDiff sourceReplaces taggedOld taggedNew None = Inr theDiff"
    and p: "propagationLoop sourceReplaces taggedOld (deepCopy taggedNew) None = Inr (dwr, rounds)"
    and l: "\<forall>logicalId.
           getDifference (resources result) logicalId =
             (case map_of (resources dwr) logicalId of
                None \<Rightarrow> getDifference (resources theDiff) logicalId
              | Some downstream \<Rightarrow>
                  if isReplacement (changeImpact downstream)
                     \<and> changeImpact (getDifference (resources theDiff) logicalId)
                         \<noteq> changeImpact downstream
                  then propagatePropertyReplacement downstream
                         (getDifference (resources theDiff) logicalId)
                  else getDifference (resources theDiff) logicalId)"
    by auto
  from l have lb: "getDifference (resources result) ''B'' =
         (case map_of (resources dwr) ''B'' of
            None \<Rightarrow> getDifference (resources theDiff) ''B''
          | Some downstream \<Rightarrow>
              if isReplacement (changeImpact downstream)
                 \<and> changeImpact (getDifference (resources theDiff) ''B'')
                     \<noteq> changeImpact downstream
              then propagatePropertyReplacement downstream
                     (getDifference (resources theDiff) ''B'')
              else getDifference (resources theDiff) ''B'')" ..
  show ?thesis
    by (rule exI[of _ result], rule exI[of _ theDiff], rule exI[of _ dwr], rule exI[of _ rounds])
       (intro conjI r i b p lb)
qed

section \<open>The base diff and resource metadata\<close>

text \<open>
  Two templates that differ in the \<^verbatim>\<open>Metadata\<close> attribute of one resource only, and a change
  set without changes.
\<close>

definition metaOld :: json where
  "metaOld = JObj [(''Resources'', JObj
     [(''A'', JObj [(''Type'', JStr ''T''), (''Properties'', JObj []),
                   (''Metadata'', JObj [(''v'', JNum 1)])])])]"

definition metaNew :: json where
  "metaNew = JObj [(''Resources'', JObj
     [(''A'', JObj [(''Type'', JStr ''T''), (''Properties'', JObj []),
                   (''Metadata'', JObj [(''v'', JNum 2)])])])]"

definition emptyChangeSet :: DescribeChangeSetOutput where
  "emptyChangeSet = \<lparr> Changes = None \<rparr>"

text \<open>
  The base diff is not computed with \<^verbatim>\<open>keepMetadata = false\<close> when there is no change set,
  and with a change set it is computed neither with \<^verbatim>\<open>keepMetadata = true\<close> nor with the
  flag left out: on the two templates above each of these gives another result than the
  base diff.
\<close>

theorem base_diff_flag_counterexample:
  "baseDiff noStaticKnowledge metaOld metaNew None
     \<noteq> calculateTemplateDiff noStaticKnowledge metaOld metaNew None (Some False)
   \<and> baseDiff noStaticKnowledge metaOld metaNew (Some emptyChangeSet)
     \<noteq> calculateTemplateDiff noStaticKnowledge metaOld metaNew
         (Some (findResourceReplacements emptyChangeSet)) (Some True)
   \<and> baseDiff noStaticKnowledge metaOld metaNew (Some emptyChangeSet)
     \<noteq> calculateTemplateDiff noStaticKnowledge metaOld metaNew
         (Some (findResourceReplacements emptyChangeSet)) None"
  by code_simp

text \<open>
  C2, amended. The base diff of \<^verbatim>\<open>diffTemplate\<close> is computed with \<^verbatim>\<open>keepMetadata = true\<close>
  when no change set was supplied and with \<^verbatim>\<open>keepMetadata = false\<close>, together with the oracle
  built from it, when one was; \<^verbatim>\<open>diffTemplate\<close> returns that diff after the propagated
  replacements have been copied into it.
\<close>

theorem base_diff_flag:
  "baseDiff table currentTemplate newTemplate None
     = calculateTemplateDiff table currentTemplate newTemplate None (Some True)
   \<and> baseDiff table currentTemplate newTemplate (Some changeSet)
     = calculateTemplateDiff table currentTemplate newTemplate
         (Some (findResourceReplacements changeSet)) (Some False)
   \<and> diffTemplate table currentTemplate newTemplate optionalChangeSet
     = (case baseDiff table currentTemplate newTemplate optionalChangeSet of
          Inl e \<Rightarrow> Inl e
        | Inr theDiff \<Rightarrow>
            (case propagationLoop table currentTemplate (deepCopy newTemplate)
                    (case optionalChangeSet of
                       None \<Rightarrow> None
                     | Some cs \<Rightarrow> Some (findResourceReplacements cs)) of
               Inl e \<Rightarrow> Inl e
             | Inr (diffWithReplacements, rounds) \<Rightarrow>
                 Inr (copyReplacedStates diffWithReplacements theDiff)))"
  by (simp add: baseDiff_def diffTemplate_def Let_def split: sum.splits)

theorem base_diff_flag_witness:
  "map_sum id (\<lambda>d. map (\<lambda>(l, r). (l, map fst (otherDiffs r))) (resources d))
      (baseDiff noStaticKnowledge metaOld metaNew None) = Inr [(''A'', [''Metadata''])]
   \<and> map_sum id (\<lambda>d. map (\<lambda>(l, r). (l, map fst (otherDiffs r))) (resources d))
      (baseDiff noStaticKnowledge metaOld metaNew (Some emptyChangeSet)) = Inr [(''A'', [])]"
proof -
  have a: "map_sum id (\<lambda>d. map (\<lambda>(l, r). (l, map fst (otherDiffs r))) (resources d))
      (calculateTemplateDiff noStaticKnowledge metaOld metaNew None (Some True))
        = Inr [(''A'', [''Metadata''])]"
    by code_simp
  have b: "map_sum id (\<lambda>d. map (\<lambda>(l, r). (l, map fst (otherDiffs r))) (resources d))
      (calculateTemplateDiff noStaticKnowledge metaOld metaNew
         (Some (findResourceReplacements emptyChangeSet)) (Some False)) = Inr [(''A'', [])]"
    by code_simp
  from base_diff_flag [of noStaticKnowledge metaOld metaNew emptyChangeSet None] a b
  show ?thesis by simp
qed

section \<open>The length of the propagation loop\<close>






section \<open>Idempotence\<close>

text \<open>
  C4. \<^verbatim>\<open>diffTemplate(T, T)\<close> is the empty diff, for every template, table and change set:
  every top-level key is skipped because the two values are deeply equal, the working copy
  is never rewritten, and every section of the result is empty.
\<close>

theorem diffTemplate_same_is_empty:
  "diffTemplate table T T changeSet = Inr emptyTemplateDiff
   \<and> awsTemplateFormatVersion emptyTemplateDiff = None \<and> description emptyTemplateDiff = None
   \<and> transform emptyTemplateDiff = None
   \<and> metadata emptyTemplateDiff = [] \<and> parameters emptyTemplateDiff = []
   \<and> mappings emptyTemplateDiff = [] \<and> conditions emptyTemplateDiff = []
   \<and> resources emptyTemplateDiff = [] \<and> outputs emptyTemplateDiff = []
   \<and> unknown emptyTemplateDiff = []"
proof -
  have "diffTemplate table T T changeSet = Inr emptyTemplateDiff"
    by (simp add: diffTemplate_def baseDiff_def calculateTemplateDiff_same deepCopy_same
          propagationLoop_same copyReplacedStates_empty)
  then show ?thesis by (simp add: emptyTemplateDiff_def)
qed

definition exampleTemplate :: json where
  "exampleTemplate =
     JObj [(''Description'', JStr ''two resources''),
           (''Resources'', JObj
              [(''Bucket'', JObj [(''Type'', JStr ''AWS::S3::Bucket''),
                                 (''Properties'', JObj [(''BucketName'', JStr ''logs'')])]),
               (''Queue'', JObj [(''Type'', JStr ''AWS::SQS::Queue''),
                                (''Properties'', JObj [(''Source'', JObj [(''Ref'', JStr ''Bucket'')])])])])]"

theorem diffTemplate_same_is_empty_witness:
  "diffTemplate noStaticKnowledge exampleTemplate exampleTemplate None = Inr emptyTemplateDiff
   \<and> diffTemplate noStaticKnowledge exampleTemplate exampleTemplate (Some exampleChangeSet)
       = Inr emptyTemplateDiff"
  using diffTemplate_same_is_empty [of noStaticKnowledge exampleTemplate None]
    diffTemplate_same_is_empty [of noStaticKnowledge exampleTemplate "Some exampleChangeSet"]
  by simp

section \<open>A marker that is a logical id\<close>

text \<open>
  Two templates with the resources \<^verbatim>\<open>A\<close>, \<^verbatim>\<open>A (replaced)\<close> and \<^verbatim>\<open>B\<close>; \<^verbatim>\<open>A\<close> is renamed and
  \<^verbatim>\<open>B\<close> refers to it.
\<close>

definition collisionOld :: json where
  "collisionOld = JObj [(''Resources'', JObj
     [(''A'', JObj [(''Type'', JStr ''T''), (''Properties'', JObj [(''Name'', JStr ''foo'')])]),
      (''A (replaced)'', JObj [(''Type'', JStr ''T''), (''Properties'', JObj [(''Name'', JStr ''x'')])]),
      (''B'', JObj [(''Type'', JStr ''T''),
                   (''Properties'', JObj [(''Source'', JObj [(''Ref'', JStr ''A'')])])])])]"

definition collisionNew :: json where
  "collisionNew = JObj [(''Resources'', JObj
     [(''A'', JObj [(''Type'', JStr ''T''), (''Properties'', JObj [(''Name'', JStr ''bar'')])]),
      (''A (replaced)'', JObj [(''Type'', JStr ''T''), (''Properties'', JObj [(''Name'', JStr ''x'')])]),
      (''B'', JObj [(''Type'', JStr ''T''),
                   (''Properties'', JObj [(''Source'', JObj [(''Ref'', JStr ''A'')])])])])]"

definition sourceOf :: "json \<Rightarrow> string \<Rightarrow> json" where
  "sourceOf template logicalId =
     getProp (getProp (getProp (getProp template ''Resources'') logicalId) ''Properties'') ''Source''"

lemma collision_example:
  "''A (replaced)'' \<in> set (objectKeys (getProp collisionNew ''Resources''))
   \<and> snd (propagateReplacedReferences collisionNew ''A'')
   \<and> sourceOf (fst (propagateReplacedReferences collisionNew ''A'')) ''B''
       = JObj [(''Ref'', JStr ''A (replaced)'')]
   \<and> map_sum id impactsOf (diffTemplate everyPropertyReplaces collisionOld collisionNew None)
       = Inr [(''A'', WILL_REPLACE, [(''Name'', Some WILL_REPLACE)]),
              (''B'', WILL_REPLACE, [(''Source'', Some WILL_REPLACE)])]"
  by code_simp

text \<open>
  The rewrite for \<^verbatim>\<open>A\<close> writes the marker \<^verbatim>\<open>A (replaced)\<close>, which is the logical id of a
  resource of the working copy, and \<^verbatim>\<open>diffTemplate\<close> returns a diff: no collision is detected
  and nothing is aborted.
\<close>

theorem marker_collision_counterexample:
  "''A (replaced)'' \<in> set (objectKeys (getProp collisionNew ''Resources''))
   \<and> snd (propagateReplacedReferences collisionNew ''A'')
   \<and> sourceOf (fst (propagateReplacedReferences collisionNew ''A'')) ''B''
       = JObj [(''Ref'', JStr ''A (replaced)'')]
   \<and> map_sum id impactsOf (diffTemplate everyPropertyReplaces collisionOld collisionNew None)
       = Inr [(''A'', WILL_REPLACE, [(''Name'', Some WILL_REPLACE)]),
              (''B'', WILL_REPLACE, [(''Source'', Some WILL_REPLACE)])]"
  by (rule collision_example)

text \<open>
  C5, amended. The rewrite has no collision check. The marker written for a logical id
  \<^verbatim>\<open>L\<close> differs from \<^verbatim>\<open>L\<close> itself, and the rewrite leaves the logical ids of the working
  copy as they are; but the marker can be the logical id of another resource of the
  working copy, and \<^verbatim>\<open>diffTemplate\<close> then still returns a diff.
\<close>

theorem rewrite_without_collision_check:
  "L @ '' (replaced)'' \<noteq> L \<and> L @ ''(replaced)'' \<noteq> L
   \<and> objectKeys (getProp (fst (propagateReplacedReferences template L)) ''Resources'')
       = objectKeys (getProp template ''Resources'')
   \<and> ''A (replaced)'' \<in> set (objectKeys (getProp collisionNew ''Resources''))
   \<and> sourceOf (fst (propagateReplacedReferences collisionNew ''A'')) ''B''
       = JObj [(''Ref'', JStr ''A (replaced)'')]
   \<and> map_sum id impactsOf (diffTemplate everyPropertyReplaces collisionOld collisionNew None)
       = Inr [(''A'', WILL_REPLACE, [(''Name'', Some WILL_REPLACE)]),
              (''B'', WILL_REPLACE, [(''Source'', Some WILL_REPLACE)])]"
proof -
  have "getProp (fst (recurse L template)) ''Resources'' = fst (recurse L (getProp template ''Resources''))"
    by (rule recurse_getProp) simp_all
  then have k: "objectKeys (getProp (fst (propagateReplacedReferences template L)) ''Resources'')
       = objectKeys (getProp template ''Resources'')"
    by (simp add: propagateReplacedReferences_def recurse_keys)
  have m: "L @ '' (replaced)'' \<noteq> L" "L @ ''(replaced)'' \<noteq> L" by simp_all
  from collision_example show ?thesis by (intro conjI m k) blast+
qed

theorem rewrite_without_collision_check_witness:
  "''A'' @ '' (replaced)'' \<noteq> ''A''
   \<and> objectKeys (getProp (fst (propagateReplacedReferences collisionNew ''A'')) ''Resources'')
       = [''A'', ''A (replaced)'', ''B'']"
proof -
  have "objectKeys (getProp collisionNew ''Resources'') = [''A'', ''A (replaced)'', ''B'']"
    by code_simp
  with rewrite_without_collision_check [of "''A''" collisionNew] show ?thesis by simp
qed

section \<open>The oracle built from a change set\<close>















section \<open>The order of the top-level keys\<close>

text \<open>The keys that \<^verbatim>\<open>calculateTemplateDiff\<close> visits, in the order of the visit.\<close>

definition templateKeys :: "json \<Rightarrow> json \<Rightarrow> string list" where
  "templateKeys currentTemplate newTemplate =
     sort (unionOf (objectKeys currentTemplate) (objectKeys newTemplate))"

lemma templateKeys_sorted:
  "sorted (templateKeys cur new) \<and> distinct (templateKeys cur new)
   \<and> set (templateKeys cur new) = set (objectKeys cur) \<union> set (objectKeys new)"
  by (simp add: templateKeys_def unionOf_def)

lemma templateKeys_order_free:
  assumes "set (objectKeys cur') = set (objectKeys cur)" "set (objectKeys new') = set (objectKeys new)"
  shows "templateKeys cur' new' = templateKeys cur new"
proof (rule sorted_distinct_set_unique)
  show "set (templateKeys cur' new') = set (templateKeys cur new)"
    using assms by (simp add: templateKeys_sorted)
qed (simp_all add: templateKeys_sorted)

lemma handleKeys_getProp_cong:
  assumes "\<forall>k. getProp cur' k = getProp cur k" "\<forall>k. getProp new' k = getProp new k"
  shows "handleKeys table cur' new' repl keep ks d = handleKeys table cur new repl keep ks d"
  using assms by (induction ks arbitrary: d) (simp_all add: Let_def cong: sum.case_cong)

lemma getProp_permuted:
  assumes "distinct (map fst a)" "distinct (map fst b)" "set a = set b"
  shows "getProp (JObj a) k = getProp (JObj b) k"
proof -
  from assms have "map_of a = map_of b" by (simp add: map_of_inject_set)
  then show ?thesis by (simp add: lookup_def)
qed

lemma DIFF_HANDLERS_unknown:
  "DIFF_HANDLERS table key = Some h \<Longrightarrow> h d a b repl keep = Inr d' \<Longrightarrow> unknown d' = unknown d"
  by (auto simp: DIFF_HANDLERS_def map_sum_def split: if_splits sum.splits)

lemma handleKeys_unknown_sorted:
  assumes "handleKeys table cur new repl keep ks d = Inr d'"
    "sorted (map fst (unknown d) @ ks)" "distinct (map fst (unknown d) @ ks)"
  shows "sorted (map fst (unknown d')) \<and> distinct (map fst (unknown d'))"
  using assms
proof (induction ks arbitrary: d)
  case Nil
  then show ?case by simp
next
  case (Cons key ks)
  from Cons.prems(2,3) have s: "sorted (map fst (unknown d) @ ks)"
    and t: "distinct (map fst (unknown d) @ ks)"
    by (auto simp: sorted_append)
  show ?case
  proof (cases "deepEqual (getProp cur key) (getProp new key)")
    case True
    with Cons.prems(1) have "handleKeys table cur new repl keep ks d = Inr d'" by simp
    from Cons.IH[OF this s t] show ?thesis .
  next
    case False
    show ?thesis
    proof (cases "DIFF_HANDLERS table key")
      case None
      let ?d = "d\<lparr>unknown := unknown d @ [(key, diffUnknown (getProp cur key) (getProp new key))]\<rparr>"
      from None False Cons.prems(1) have h: "handleKeys table cur new repl keep ks ?d = Inr d'"
        by (simp add: Let_def)
      from Cons.prems(2,3) have "sorted (map fst (unknown ?d) @ ks)" "distinct (map fst (unknown ?d) @ ks)"
        by simp_all
      from Cons.IH[OF h this] show ?thesis .
    next
      case (Some h)
      with False Cons.prems(1) obtain d1 where
        h: "h d (getProp cur key) (getProp new key) repl keep = Inr d1"
        and r: "handleKeys table cur new repl keep ks d1 = Inr d'"
        by (auto simp: Let_def split: sum.splits)
      from DIFF_HANDLERS_unknown[OF Some h] s t
      have "sorted (map fst (unknown d1) @ ks)" "distinct (map fst (unknown d1) @ ks)" by simp_all
      from Cons.IH[OF r this] show ?thesis .
    qed
  qed
qed

text \<open>
  C8. \<^verbatim>\<open>diffTemplate\<close> is a function of its inputs: nothing but the two templates, the
  change set and the table enters its result, so equal inputs give equal diffs.
  \<^verbatim>\<open>calculateTemplateDiff\<close> visits the top-level keys of both templates in sorted order, each
  once; the \<^verbatim>\<open>unknown\<close> collection it builds is therefore sorted by key, and the result does
  not depend on the order in which the two input objects list their keys.
\<close>

theorem top_level_keys_sorted:
  "calculateTemplateDiff table currentTemplate newTemplate replacements keepMetadata
     = handleKeys table currentTemplate newTemplate replacements keepMetadata
         (templateKeys currentTemplate newTemplate) emptyTemplateDiff
   \<and> sorted (templateKeys currentTemplate newTemplate)
   \<and> distinct (templateKeys currentTemplate newTemplate)
   \<and> set (templateKeys currentTemplate newTemplate)
       = set (objectKeys currentTemplate) \<union> set (objectKeys newTemplate)
   \<and> (calculateTemplateDiff table currentTemplate newTemplate replacements keepMetadata = Inr d
        \<longrightarrow> sorted (map fst (unknown d)) \<and> distinct (map fst (unknown d)))
   \<and> (distinct (map fst a) \<and> distinct (map fst a') \<and> set a' = set a
        \<and> distinct (map fst b) \<and> distinct (map fst b') \<and> set b' = set b
        \<longrightarrow> calculateTemplateDiff table (JObj a') (JObj b') replacements keepMetadata
            = calculateTemplateDiff table (JObj a) (JObj b) replacements keepMetadata)"
proof -
  have one: "calculateTemplateDiff table currentTemplate newTemplate replacements keepMetadata
     = handleKeys table currentTemplate newTemplate replacements keepMetadata
         (templateKeys currentTemplate newTemplate) emptyTemplateDiff"
    by (simp add: calculateTemplateDiff_def templateKeys_def)
  have two: "calculateTemplateDiff table currentTemplate newTemplate replacements keepMetadata = Inr d
        \<longrightarrow> sorted (map fst (unknown d)) \<and> distinct (map fst (unknown d))"
  proof
    assume "calculateTemplateDiff table currentTemplate newTemplate replacements keepMetadata = Inr d"
    then have h: "handleKeys table currentTemplate newTemplate replacements keepMetadata
         (templateKeys currentTemplate newTemplate) emptyTemplateDiff = Inr d"
      unfolding one .
    show "sorted (map fst (unknown d)) \<and> distinct (map fst (unknown d))"
      by (rule handleKeys_unknown_sorted[OF h])
         (simp_all add: emptyTemplateDiff_def templateKeys_sorted)
  qed
  have three: "distinct (map fst a) \<and> distinct (map fst a') \<and> set a' = set a
        \<and> distinct (map fst b) \<and> distinct (map fst b') \<and> set b' = set b
        \<longrightarrow> calculateTemplateDiff table (JObj a') (JObj b') replacements keepMetadata
            = calculateTemplateDiff table (JObj a) (JObj b) replacements keepMetadata"
  proof
    assume h: "distinct (map fst a) \<and> distinct (map fst a') \<and> set a' = set a
        \<and> distinct (map fst b) \<and> distinct (map fst b') \<and> set b' = set b"
    then have ga: "\<forall>k. getProp (JObj a') k = getProp (JObj a) k"
      and gb: "\<forall>k. getProp (JObj b') k = getProp (JObj b) k"
      using getProp_permuted by blast+
    from h have "set (objectKeys (JObj a')) = set (objectKeys (JObj a))"
      "set (objectKeys (JObj b')) = set (objectKeys (JObj b))" by simp_all
    from templateKeys_order_free[OF this]
    have k: "templateKeys (JObj a') (JObj b') = templateKeys (JObj a) (JObj b)" .
    show "calculateTemplateDiff table (JObj a') (JObj b') replacements keepMetadata
            = calculateTemplateDiff table (JObj a) (JObj b) replacements keepMetadata"
      unfolding calculateTemplateDiff_def templateKeys_def[symmetric] k
      by (rule handleKeys_getProp_cong[OF ga gb])
  qed
  from one two three templateKeys_sorted[of currentTemplate newTemplate] show ?thesis by blast
qed

definition shuffledOld :: json where
  "shuffledOld = JObj [(''Zeta'', JNum 1), (''Resources'', JObj []), (''Alpha'', JNum 1)]"

definition shuffledNew :: json where
  "shuffledNew = JObj [(''Outputs'', JObj []), (''Zeta'', JNum 2), (''Beta'', JNum 2), (''Alpha'', JNum 2)]"

theorem top_level_keys_sorted_witness:
  "templateKeys shuffledOld shuffledNew = [''Alpha'', ''Beta'', ''Outputs'', ''Resources'', ''Zeta'']
   \<and> (\<exists>d. calculateTemplateDiff noStaticKnowledge shuffledOld shuffledNew None None = Inr d
          \<and> map fst (unknown d) = [''Alpha'', ''Beta'', ''Zeta'']
          \<and> sorted (map fst (unknown d)))
   \<and> calculateTemplateDiff noStaticKnowledge
        (JObj [(''Alpha'', JNum 1), (''Zeta'', JNum 1), (''Resources'', JObj [])])
        (JObj [(''Alpha'', JNum 2), (''Beta'', JNum 2), (''Zeta'', JNum 2), (''Outputs'', JObj [])])
        None None
      = calculateTemplateDiff noStaticKnowledge
        (JObj [(''Zeta'', JNum 1), (''Resources'', JObj []), (''Alpha'', JNum 1)])
        (JObj [(''Outputs'', JObj []), (''Zeta'', JNum 2), (''Beta'', JNum 2), (''Alpha'', JNum 2)])
        None None"
proof -
  have k: "templateKeys shuffledOld shuffledNew = [''Alpha'', ''Beta'', ''Outputs'', ''Resources'', ''Zeta'']"
    by code_simp
  have u: "map_sum id (\<lambda>d. map fst (unknown d))
        (calculateTemplateDiff noStaticKnowledge shuffledOld shuffledNew None None)
      = Inr [''Alpha'', ''Beta'', ''Zeta'']"
    by code_simp
  then obtain d where d: "calculateTemplateDiff noStaticKnowledge shuffledOld shuffledNew None None = Inr d"
    and ud: "map fst (unknown d) = [''Alpha'', ''Beta'', ''Zeta'']"
    by (cases "calculateTemplateDiff noStaticKnowledge shuffledOld shuffledNew None None") auto
  have s: "set [(''Alpha'', JNum 1), (''Zeta'', JNum 1), (''Resources'', JObj [])]
             = set [(''Zeta'', JNum 1), (''Resources'', JObj []), (''Alpha'', JNum 1)]"
    "set [(''Alpha'', JNum 2), (''Beta'', JNum 2), (''Zeta'', JNum 2), (''Outputs'', JObj [])]
       = set [(''Outputs'', JObj []), (''Zeta'', JNum 2), (''Beta'', JNum 2), (''Alpha'', JNum 2)]"
    by auto
  have t: "distinct (map fst [(''Zeta'', JNum 1), (''Resources'', JObj []), (''Alpha'', JNum 1)])"
    "distinct (map fst [(''Alpha'', JNum 1), (''Zeta'', JNum 1), (''Resources'', JObj [])])"
    "distinct (map fst [(''Outputs'', JObj []), (''Zeta'', JNum 2), (''Beta'', JNum 2), (''Alpha'', JNum 2)])"
    "distinct (map fst [(''Alpha'', JNum 2), (''Beta'', JNum 2), (''Zeta'', JNum 2), (''Outputs'', JObj [])])"
    by simp_all
  note inst = top_level_keys_sorted
    [of noStaticKnowledge shuffledOld shuffledNew None None d
        "[(''Zeta'', JNum 1), (''Resources'', JObj []), (''Alpha'', JNum 1)]"
        "[(''Alpha'', JNum 1), (''Zeta'', JNum 1), (''Resources'', JObj [])]"
        "[(''Outputs'', JObj []), (''Zeta'', JNum 2), (''Beta'', JNum 2), (''Alpha'', JNum 2)]"
        "[(''Alpha'', JNum 2), (''Beta'', JNum 2), (''Zeta'', JNum 2), (''Outputs'', JObj [])]"]
  from inst d have srt: "sorted (map fst (unknown d))" by blast
  from inst s t have eq: "calculateTemplateDiff noStaticKnowledge
        (JObj [(''Alpha'', JNum 1), (''Zeta'', JNum 1), (''Resources'', JObj [])])
        (JObj [(''Alpha'', JNum 2), (''Beta'', JNum 2), (''Zeta'', JNum 2), (''Outputs'', JObj [])])
        None None
      = calculateTemplateDiff noStaticKnowledge
        (JObj [(''Zeta'', JNum 1), (''Resources'', JObj []), (''Alpha'', JNum 1)])
        (JObj [(''Outputs'', JObj []), (''Zeta'', JNum 2), (''Beta'', JNum 2), (''Alpha'', JNum 2)])
        None None" by blast
  from d ud srt
  have ex: "\<exists>d. calculateTemplateDiff noStaticKnowledge shuffledOld shuffledNew None None = Inr d
          \<and> map fst (unknown d) = [''Alpha'', ''Beta'', ''Zeta'']
          \<and> sorted (map fst (unknown d))"
    by (intro exI[of _ d] conjI)
  show ?thesis by (intro conjI k ex eq)
qed

section \<open>What counts as a reference\<close>

text \<open>
  C9. Only an object with exactly one key is treated as a reference expression. An object
  whose single key is \<^verbatim>\<open>Ref\<close> or starts with \<^verbatim>\<open>Fn::\<close> is never descended into: unless the
  \<^verbatim>\<open>Ref\<close> value, or the first element of the \<^verbatim>\<open>Fn::\<close> array, is the logical id itself, the
  object stays as it is, whatever references it holds further inside, and when the first
  element is rewritten the rest of the array is left alone. In an object with further keys a
  \<^verbatim>\<open>Ref\<close> entry naming the logical id is kept unchanged.
\<close>

theorem references_not_nested:
  "(length kvs \<noteq> 1 \<longrightarrow> replaceReference L kvs = None)
   \<and> (prefix ''Fn::'' key \<and> (\<forall>rest. v \<noteq> JArr (JStr L # rest)) \<longrightarrow>
        propagateReplacedReferences (JObj [(key, v)]) L = (JObj [(key, v)], False))
   \<and> (prefix ''Fn::'' key \<longrightarrow>
        propagateReplacedReferences (JObj [(key, JArr (JStr L # rest))]) L
          = (JObj [(key, JArr (JStr (L @ ''(replaced)'') # rest))], True))
   \<and> (v \<noteq> JStr L \<longrightarrow>
        propagateReplacedReferences (JObj [(''Ref'', v)]) L = (JObj [(''Ref'', v)], False))
   \<and> (length kvs \<noteq> 1 \<and> i < length kvs \<and> kvs ! i = (''Ref'', JStr L) \<longrightarrow>
        (\<exists>kvs' r. propagateReplacedReferences (JObj kvs) L = (JObj kvs', r)
           \<and> length kvs' = length kvs \<and> kvs' ! i = (''Ref'', JStr L)))"
  unfolding propagateReplacedReferences_def
  using replaceReference_not_single[of kvs L] fn_not_descended[of key v L]
    fn_first_only[of key L rest] ref_not_descended[of v L] ref_beside_other_key[of kvs i L L]
  by blast


theorem references_not_nested_witness:
  "length [(''Ref'', JStr ''A''), (''Other'', JObj [(''Ref'', JStr ''A'')])] \<noteq> 1
   \<and> replaceReference ''A'' [(''Ref'', JStr ''A''), (''Other'', JObj [(''Ref'', JStr ''A'')])] = None
   \<and> prefix ''Fn::'' ''Fn::Join''
   \<and> propagateReplacedReferences
         (JObj [(''Fn::Join'', JArr [JStr ''-'', JArr [JObj [(''Ref'', JStr ''A'')], JStr ''A'']])]) ''A''
       = (JObj [(''Fn::Join'', JArr [JStr ''-'', JArr [JObj [(''Ref'', JStr ''A'')], JStr ''A'']])], False)
   \<and> propagateReplacedReferences
         (JObj [(''Fn::Join'', JArr [JStr ''A'', JObj [(''Ref'', JStr ''A'')]])]) ''A''
       = (JObj [(''Fn::Join'', JArr [JStr ''A(replaced)'', JObj [(''Ref'', JStr ''A'')]])], True)
   \<and> (\<exists>kvs' r. propagateReplacedReferences
          (JObj [(''Ref'', JStr ''A''), (''Other'', JObj [(''Ref'', JStr ''A'')])]) ''A'' = (JObj kvs', r)
        \<and> length kvs' = 2 \<and> kvs' ! 0 = (''Ref'', JStr ''A''))"
proof -
  have h1: "prefix ''Fn::'' ''Fn::Join''" by simp
  have h2: "\<forall>rest. JArr [JStr ''-'', JArr [JObj [(''Ref'', JStr ''A'')], JStr ''A'']] \<noteq> JArr (JStr ''A'' # rest)"
    by simp
  have h3: "length [(''Ref'', JStr ''A''), (''Other'', JObj [(''Ref'', JStr ''A'')])] \<noteq> 1" by simp
  have h4: "[(''Ref'', JStr ''A''), (''Other'', JObj [(''Ref'', JStr ''A'')])] ! 0 = (''Ref'', JStr ''A'')"
    by simp
  from references_not_nested[of "[(''Ref'', JStr ''A''), (''Other'', JObj [(''Ref'', JStr ''A'')])]" "''A''"
      "''Fn::Join''" "JArr [JStr ''-'', JArr [JObj [(''Ref'', JStr ''A'')], JStr ''A'']]"
      "[JObj [(''Ref'', JStr ''A'')]]" 0] h1 h2 h3 h4
  show ?thesis by (simp add: numeral_2_eq_2)
qed

section \<open>The two markers\<close>

text \<open>
  C10. A \<^verbatim>\<open>{Ref: L}\<close> is rewritten to \<^verbatim>\<open>L + ' (replaced)'\<close>, with a space, and the first
  element \<^verbatim>\<open>L\<close> of the array of an \<^verbatim>\<open>Fn::\<close> intrinsic to \<^verbatim>\<open>L + '(replaced)'\<close>, without one.
  Both rewrites report a change, and the two markers differ from each other and from
  \<^verbatim>\<open>L\<close>.
\<close>

theorem markers_differ:
  "propagateReplacedReferences (JObj [(''Ref'', JStr L)]) L
     = (JObj [(''Ref'', JStr (L @ '' (replaced)''))], True)
   \<and> (prefix ''Fn::'' key \<longrightarrow>
        propagateReplacedReferences (JObj [(key, JArr (JStr L # rest))]) L
          = (JObj [(key, JArr (JStr (L @ ''(replaced)'') # rest))], True))
   \<and> L @ '' (replaced)'' \<noteq> L @ ''(replaced)''
   \<and> L @ '' (replaced)'' \<noteq> L
   \<and> L @ ''(replaced)'' \<noteq> L"
proof -
  have "prefix ''Fn::'' key \<Longrightarrow> key \<noteq> ''Ref''" by auto
  then show ?thesis by (simp add: propagateReplacedReferences_def)
qed

theorem markers_differ_witness:
  "prefix ''Fn::'' ''Fn::GetAtt''
   \<and> propagateReplacedReferences (JObj [(''Ref'', JStr ''Bucket'')]) ''Bucket''
       = (JObj [(''Ref'', JStr ''Bucket (replaced)'')], True)
   \<and> propagateReplacedReferences (JObj [(''Fn::GetAtt'', JArr [JStr ''Bucket'', JStr ''Arn''])]) ''Bucket''
       = (JObj [(''Fn::GetAtt'', JArr [JStr ''Bucket(replaced)'', JStr ''Arn''])], True)"
  using markers_differ [of "''Bucket''" "''Fn::GetAtt''" "[JStr ''Arn'']"] by simp

end
